theory Spec2Isabelle
  imports Main "HOL-Library.AList"
begin

section \<open>Strings\<close>

text \<open>
  Python strings are modelled as \<^typ>\<open>string\<close>; a character stands for a code point
  below 256.  \<open>str_replace a b s\<close> is \<^verbatim>\<open>s.replace(a, b)\<close> for one-character
  arguments \<open>a\<close> and \<open>b\<close>: the notebook only calls it as \<^verbatim>\<open>replace(' ', '_')\<close>
  and \<^verbatim>\<open>replace('/', '.')\<close>.
\<close>

definition str_replace :: "char \<Rightarrow> char \<Rightarrow> string \<Rightarrow> string" where
  "str_replace a b s = map (\<lambda>c. if c = a then b else c) s"

text \<open>\<^verbatim>\<open>s.strip(c)\<close> for a one-character argument: leading and trailing \<open>c\<close> removed.\<close>

definition str_strip :: "char \<Rightarrow> string \<Rightarrow> string" where
  "str_strip c s = rev (dropWhile (\<lambda>d. d = c) (rev (dropWhile (\<lambda>d. d = c) s)))"

text \<open>\<^verbatim>\<open>sep.join(xs)\<close> for a one-character separator.\<close>

fun str_join :: "char \<Rightarrow> string list \<Rightarrow> string" where
  "str_join sep [] = []"
| "str_join sep [x] = x"
| "str_join sep (x # y # ys) = x @ sep # str_join sep (y # ys)"

section \<open>split\_param\_list\<close>

text \<open>
  \<^verbatim>\<open>
  def split_param_list(alist):
      chunk_len = 50
      if len(alist) < 1:
          return ''
      ...
      chunks = [alist[x:x+chunk_len]
                for x in range(0, len(alist), chunk_len)]
      return chunks
  \<close>
  The function returns the empty string for an empty input and a list of slices
  otherwise; both results are only ever iterated by the callers.
\<close>

datatype 'a chunks = EmptyStr | Chunks "'a list list"

text \<open>\<^verbatim>\<open>range(0, n, step)\<close>\<close>

definition range_step :: "nat \<Rightarrow> nat \<Rightarrow> nat list" where
  "range_step n step = map (\<lambda>k. k * step) [0 ..< (n + step - 1) div step]"

definition chunk_len :: nat where
  "chunk_len = 50"

definition split_param_list :: "'a list \<Rightarrow> 'a chunks" where
  "split_param_list alist =
     (if length alist < 1 then EmptyStr
      else Chunks (map (\<lambda>x. take chunk_len (drop x alist)) (range_step (length alist) chunk_len)))"

text \<open>
  \<^verbatim>\<open>for title_list in title_lists\<close>: the items a loop over the result visits.
  Iterating the empty string visits nothing.
\<close>

fun iterate :: "'a chunks \<Rightarrow> 'a list list" where
  "iterate EmptyStr = []"
| "iterate (Chunks cs) = cs"

section \<open>Text files\<close>

definition LF :: char where "LF = CHR 0x0A"
definition CR :: char where "CR = CHR 0x0D"

text \<open>
  Reading a file opened in text mode translates \<^verbatim>\<open>\r\n\<close> and a lone \<^verbatim>\<open>\r\<close> to
  \<^verbatim>\<open>\n\<close> (universal newlines).  Writing on the notebook's platform stores
  \<^verbatim>\<open>\n\<close> as it is.
\<close>

fun universal_newlines :: "string \<Rightarrow> string" where
  "universal_newlines [] = []"
| "universal_newlines [c] = [if c = CR then LF else c]"
| "universal_newlines (c # d # ds) =
     (if c = CR \<and> d = LF then LF # universal_newlines ds
      else if c = CR then LF # universal_newlines (d # ds)
      else c # universal_newlines (d # ds))"

text \<open>
  \<^verbatim>\<open>str.splitlines()\<close>: the line boundaries among the code points below 256 are
  \<^verbatim>\<open>\n \v \f \r \x1c \x1d \x1e \x85\<close>, and \<^verbatim>\<open>\r\n\<close> counts as one boundary.
  The boundaries are not part of the lines; a string that ends in a boundary has no
  empty last line.
\<close>

definition is_linebreak :: "char \<Rightarrow> bool" where
  "is_linebreak c \<longleftrightarrow>
     c \<in> {CHR 0x0A, CHR 0x0B, CHR 0x0C, CHR 0x0D, CHR 0x1C, CHR 0x1D, CHR 0x1E, CHR 0x85}"

fun splitlines_from :: "string \<Rightarrow> string \<Rightarrow> string list" where
  "splitlines_from cur [] = (if cur = [] then [] else [cur])"
| "splitlines_from cur [c] = (if is_linebreak c then [cur] else [cur @ [c]])"
| "splitlines_from cur (c # d # ds) =
     (if c = CR \<and> d = LF then cur # splitlines_from [] ds
      else if is_linebreak c then cur # splitlines_from [] (d # ds)
      else splitlines_from (cur @ [c]) (d # ds))"

definition splitlines :: "string \<Rightarrow> string list" where
  "splitlines s = splitlines_from [] s"

text \<open>
  \<^verbatim>\<open>for line in infile\<close>: the lines of a text file, each with its terminating
  \<^verbatim>\<open>\n\<close> when it has one.
\<close>

fun file_lines_from :: "string \<Rightarrow> string \<Rightarrow> string list" where
  "file_lines_from cur [] = (if cur = [] then [] else [cur])"
| "file_lines_from cur (c # cs) =
     (if c = LF then (cur @ [c]) # file_lines_from [] cs
      else file_lines_from (cur @ [c]) cs)"

definition file_lines :: "string \<Rightarrow> string list" where
  "file_lines s = file_lines_from [] (universal_newlines s)"

section \<open>Errors, the remote service and the global state\<close>

text \<open>
  The uncaught exceptions of the notebook.  \<open>RequestError\<close> stands for any exception
  that \<^verbatim>\<open>request.query()\<close> raises.
\<close>

datatype error = KeyError | IndexError | ValueError | IOError | RequestError

text \<open>
  The three parameter dictionaries the notebook sends:
  \<^item> \<open>RevisionsQuery t\<close> is
    \<^verbatim>\<open>{'action': 'query', 'prop': 'revisions', 'titles': t, 'rvprop': 'content', 'redirects': 1}\<close>
    (\<open>get_outlinks_from_api\<close>);
  \<^item> \<open>RedirectsQuery t\<close> is \<^verbatim>\<open>{'action': 'query', 'titles': t, 'redirects': 1}\<close>
    (\<open>check_redirects\<close>);
  \<^item> \<open>ParseQuery t\<close> is
    \<^verbatim>\<open>{'action': 'query', 'titles': t, 'format': 'json', 'redirect': 1}\<close> (\<open>parse_text\<close>).
\<close>

datatype request = RevisionsQuery string | RedirectsQuery string | ParseQuery string

text \<open>
  A page object of a response: its \<^verbatim>\<open>'ns'\<close> entry when present, its \<^verbatim>\<open>'title'\<close>
  and, when present, its \<^verbatim>\<open>'revisions'\<close> list (each revision given by its \<^verbatim>\<open>'*'\<close>
  entry, the wikitext).
\<close>

record page =
  ns :: "int option"
  title :: string
  revisions :: "string list option"

text \<open>
  \<^verbatim>\<open>result['query']\<close>: the \<^verbatim>\<open>'redirects'\<close> list (pairs \<^verbatim>\<open>'from'\<close>, \<^verbatim>\<open>'to'\<close>) and the
  \<^verbatim>\<open>'pages'\<close> dictionary when present.  A Python dictionary keeps insertion order, so
  \<^verbatim>\<open>'pages'\<close> is the list of its items (page id, page object), the page ids distinct.
\<close>

record response =
  redirects :: "(string \<times> string) list option"
  pages :: "(string \<times> page) list option"

text \<open>
  The remote service is outside the repository: it is a parameter.  Its answer may depend
  on every request sent to it before (the first argument) and on the request; \<open>Inl\<close> is a
  request that raises.
\<close>

type_synonym site = "request list \<Rightarrow> request \<Rightarrow> error + response"

text \<open>
  The global state the functions act on: the files on disk (path to content), the edges
  written to \<^verbatim>\<open>net_file\<close> (each pair \<open>(s, t)\<close> stands for the line
  \<^verbatim>\<open>s + '\t' + t + '\n'\<close>), and the requests sent to the service so far.  The notebook
  opens \<^verbatim>\<open>net_file\<close> with \<^verbatim>\<open>'w+'\<close> before the run, so a run starts with no edge.
\<close>

record world =
  files :: "string \<rightharpoonup> string"
  net_file :: "(string \<times> string) list"
  requests :: "request list"

text \<open>\<^verbatim>\<open>api.APIRequest(site, params).query()\<close>\<close>

definition api_query :: "site \<Rightarrow> world \<Rightarrow> request \<Rightarrow> (error + response) \<times> world" where
  "api_query site w req = (site (requests w) req, w\<lparr>requests := requests w @ [req]\<rparr>)"

text \<open>
  Opening a file for appending (\<^verbatim>\<open>'a+'\<close>: the file is created when it is missing) or
  for writing (\<^verbatim>\<open>'w'\<close>: the file is emptied), and writing to the open file.  A write
  reaches the file at once; the buffer of the file object is not modelled.
\<close>

definition append_file :: "world \<Rightarrow> string \<Rightarrow> string \<Rightarrow> world" where
  "append_file w path s =
     w\<lparr>files := (files w)(path \<mapsto> (case files w path of None \<Rightarrow> [] | Some c \<Rightarrow> c) @ s)\<rparr>"

definition open_append :: "world \<Rightarrow> string \<Rightarrow> world" where
  "open_append w path = append_file w path []"

definition open_write :: "world \<Rightarrow> string \<Rightarrow> world" where
  "open_write w path = w\<lparr>files := (files w)(path \<mapsto> [])\<rparr>"

text \<open>\<^verbatim>\<open>link_folder/name\<close> with \<^verbatim>\<open>link_folder = data/links\<close>.\<close>

definition link_path :: "string \<Rightarrow> string" where
  "link_path name = ''data/links/'' @ name"

text \<open>\<^verbatim>\<open>title.replace('/','.') + '_articles.txt'\<close>\<close>

definition cache_name :: "string \<Rightarrow> string" where
  "cache_name t = str_replace (CHR ''/'') (CHR ''.'') t @ ''_articles.txt''"

section \<open>load\_seed\<close>

text \<open>
  \<^verbatim>\<open>
  def load_seed(file_name):
      dic = {}
      infile = pathlib.Path(file_name).open('r')
      for line in infile:
          el = line.strip('\n')
          if el and el[0] != '#':
              el = el.replace(' ', '_')
              dic[el] = 1
      return dic
  \<close>
  A dictionary is the list of its items in insertion order; \<open>AList.update\<close> replaces
  the value of a key that is present and appends a new key at the end.
\<close>

fun load_seed_loop :: "(string \<times> int) list \<Rightarrow> string list \<Rightarrow> (string \<times> int) list" where
  "load_seed_loop dic [] = dic"
| "load_seed_loop dic (line # rest) =
     (let el = str_strip LF line in
      if el \<noteq> [] \<and> hd el \<noteq> CHR ''#''
      then load_seed_loop (AList.update (str_replace (CHR '' '') (CHR ''_'') el) 1 dic) rest
      else load_seed_loop dic rest)"

definition load_seed :: "world \<Rightarrow> string \<Rightarrow> error + (string \<times> int) list" where
  "load_seed w file_name =
     (case files w file_name of
        None \<Rightarrow> Inl IOError
      | Some content \<Rightarrow> Inr (load_seed_loop [] (file_lines content)))"

section \<open>The link pattern\<close>

text \<open>
  \<^verbatim>\<open>linkP = re.compile(r'\[\[([^]^[^}^{^#^/^]+?)\s*(?:/[^]^[]*?)?\s*(?:\|[^]^[]*?)?(?:\}\})?\s*\]\]')\<close>

  The pattern is matched as Python's \<^verbatim>\<open>re\<close> does it, by backtracking: a matcher takes
  the continuation that matches the rest of the pattern and the remaining input, and
  tries its alternatives in the order of their priority.  Every repetition of the
  pattern is over a character class.
\<close>

type_synonym 'a cont = "string \<Rightarrow> 'a option"

text \<open>\<open>X*?\<close>: as few characters of the class as the rest of the pattern allows.\<close>

fun lazy_star :: "(char \<Rightarrow> bool) \<Rightarrow> 'a cont \<Rightarrow> string \<Rightarrow> 'a option" where
  "lazy_star P k [] = k []"
| "lazy_star P k (c # cs) =
     (case k (c # cs) of
        Some r \<Rightarrow> Some r
      | None \<Rightarrow> if P c then lazy_star P k cs else None)"

text \<open>\<open>X+?\<close>\<close>

definition lazy_plus :: "(char \<Rightarrow> bool) \<Rightarrow> 'a cont \<Rightarrow> string \<Rightarrow> 'a option" where
  "lazy_plus P k s = (case s of [] \<Rightarrow> None | c # cs \<Rightarrow> if P c then lazy_star P k cs else None)"

text \<open>\<open>X*\<close>: as many characters of the class as the rest of the pattern allows.\<close>

fun greedy_star :: "(char \<Rightarrow> bool) \<Rightarrow> 'a cont \<Rightarrow> string \<Rightarrow> 'a option" where
  "greedy_star P k [] = k []"
| "greedy_star P k (c # cs) =
     (if P c
      then (case greedy_star P k cs of Some r \<Rightarrow> Some r | None \<Rightarrow> k (c # cs))
      else k (c # cs))"

text \<open>One literal character.\<close>

definition lit :: "char \<Rightarrow> 'a cont \<Rightarrow> string \<Rightarrow> 'a option" where
  "lit c k s = (case s of [] \<Rightarrow> None | d # ds \<Rightarrow> if d = c then k ds else None)"

text \<open>\<open>(?:m)?\<close>: the group first, the empty match second.\<close>

definition opt :: "('a cont \<Rightarrow> string \<Rightarrow> 'a option) \<Rightarrow> 'a cont \<Rightarrow> string \<Rightarrow> 'a option" where
  "opt m k s = (case m k s of Some r \<Rightarrow> Some r | None \<Rightarrow> k s)"

text \<open>\<^verbatim>\<open>[^]^[^}^{^#^/^]\<close> and \<^verbatim>\<open>[^]^[]\<close>\<close>

definition link_char :: "char \<Rightarrow> bool" where
  "link_char c \<longleftrightarrow>
     c \<notin> {CHR '']'', CHR ''^'', CHR ''['', CHR ''}'', CHR ''{'', CHR ''#'', CHR ''/''}"

definition tail_char :: "char \<Rightarrow> bool" where
  "tail_char c \<longleftrightarrow> c \<notin> {CHR '']'', CHR ''^'', CHR ''[''}"

text \<open>\<^verbatim>\<open>\s\<close> on a \<^verbatim>\<open>str\<close> pattern, for the code points below 256.\<close>

definition is_space :: "char \<Rightarrow> bool" where
  "is_space c \<longleftrightarrow>
     c \<in> {CHR 0x09, CHR 0x0A, CHR 0x0B, CHR 0x0C, CHR 0x0D, CHR 0x1C, CHR 0x1D, CHR 0x1E,
          CHR 0x1F, CHR 0x20, CHR 0x85, CHR 0xA0}"

text \<open>
  A match of \<open>linkP\<close> that starts at the head of the input: group 1 and the input left
  after the match.
\<close>

definition linkP_match :: "string \<Rightarrow> (string \<times> string) option" where
  "linkP_match s =
     lit (CHR ''['') (lit (CHR ''['') (\<lambda>s0.
       lazy_plus link_char (\<lambda>s1.
         greedy_star is_space
           (opt (\<lambda>k. lit (CHR ''/'') (lazy_star tail_char k))
             (greedy_star is_space
               (opt (\<lambda>k. lit (CHR ''|'') (lazy_star tail_char k))
                 (opt (\<lambda>k. lit (CHR ''}'') (lit (CHR ''}'') k))
                   (greedy_star is_space
                     (lit (CHR '']'') (lit (CHR '']'')
                       (\<lambda>s2. Some (take (length s0 - length s1) s0, s2))))))))) s1) s0)) s"

text \<open>
  \<^verbatim>\<open>re.findall(linkP, content)\<close>: group 1 of the matches found scanning from left to
  right, a match never starting inside the one before.  The first argument counts the
  characters of the last match that are still to be skipped.
\<close>

fun findall_from :: "nat \<Rightarrow> string \<Rightarrow> string list" where
  "findall_from n [] = []"
| "findall_from (Suc n) (c # cs) = findall_from n cs"
| "findall_from 0 (c # cs) =
     (case linkP_match (c # cs) of
        Some (g, rest) \<Rightarrow> g # findall_from (length cs - length rest) cs
      | None \<Rightarrow> findall_from 0 cs)"

definition findall_linkP :: "string \<Rightarrow> string list" where
  "findall_linkP content = findall_from 0 content"

section \<open>parse\_text\<close>

text \<open>
  \<^verbatim>\<open>
  def parse_text(content):
      links = {}
      rough_links = re.findall(linkP, content) #get all links
      title_lists = split_param_list(rough_links)
      for title_list in title_lists:
          params = {'action': 'query', 'titles': '|'.join(title_list).strip('|'),
                    'format': 'json', 'redirect': 1}
          request = api.APIRequest(site, params)
          result = request.query()
          # check that we have received pages as result
          if result['query'].get('pages', None):
              for page in result['query']['pages']:
                  if page != '-1' and ('ns' in result['query']['pages'][page]):
                      # Filter just useful links, articles are in ns == 0
                      if result['query']['pages'][page]['ns'] == 0:
                          link = result['query']['pages'][page]['title']
                          links[link] = 1
      return links
  \<close>
\<close>

definition joined :: "string list \<Rightarrow> string" where
  "joined title_list = str_strip (CHR ''|'') (str_join (CHR ''|'') title_list)"

fun parse_pages :: "(string \<times> int) list \<Rightarrow> (string \<times> page) list \<Rightarrow> (string \<times> int) list" where
  "parse_pages links [] = links"
| "parse_pages links ((pid, pg) # rest) =
     (if pid \<noteq> ''-1'' \<and> ns pg \<noteq> None
      then (if ns pg = Some 0
            then parse_pages (AList.update (title pg) 1 links) rest
            else parse_pages links rest)
      else parse_pages links rest)"

fun parse_loop ::
  "site \<Rightarrow> (string \<times> int) list \<Rightarrow> world \<Rightarrow> string list list
     \<Rightarrow> (error + (string \<times> int) list) \<times> world" where
  "parse_loop site links w [] = (Inr links, w)"
| "parse_loop site links w (title_list # rest) =
     (case api_query site w (ParseQuery (joined title_list)) of
        (Inl e, w1) \<Rightarrow> (Inl e, w1)
      | (Inr result, w1) \<Rightarrow>
          (case pages result of
             None \<Rightarrow> parse_loop site links w1 rest
           | Some ps \<Rightarrow> parse_loop site (parse_pages links ps) w1 rest))"

definition parse_text :: "site \<Rightarrow> world \<Rightarrow> string \<Rightarrow> (error + (string \<times> int) list) \<times> world" where
  "parse_text site w content =
     parse_loop site [] w (iterate (split_param_list (findall_linkP content)))"

section \<open>check\_redirects\<close>

text \<open>
  \<^verbatim>\<open>
  def check_redirects(titles):
      redirects = {}
      links = {}
      duplicates = 0
      title_lists = split_param_list(titles)
      for title_list in title_lists:
          params = {'action':'query', 'titles': '|'.join(title_list).strip('|'),
                    'redirects': 1}
          request = api.APIRequest(site, params)
          result = request.query()
          if 'redirects' in result['query']:
              for redir in result['query']['redirects']:
                  redirects[redir['from']] = redir['to']
          for page in result['query']['pages']:
              if page != '-1' and 'ns' in result['query']['pages'][page]:
                  if result['query']['pages'][page]['ns'] == 0:
                      link = result['query']['pages'][page]['title'].replace(' ', '_')
                      if link in links:
                          duplicates += 1
                      links[link] = page
      ...
      return redirects,links
  \<close>
  The lines left out compute and log the number of missing titles.
\<close>

fun add_redirects :: "(string \<times> string) list \<Rightarrow> (string \<times> string) list \<Rightarrow> (string \<times> string) list" where
  "add_redirects rd [] = rd"
| "add_redirects rd ((src, dst) # rest) = add_redirects (AList.update src dst rd) rest"

fun check_pages ::
  "(string \<times> string) list \<times> nat \<Rightarrow> (string \<times> page) list \<Rightarrow> (string \<times> string) list \<times> nat" where
  "check_pages (links, duplicates) [] = (links, duplicates)"
| "check_pages (links, duplicates) ((pid, pg) # rest) =
     (if pid \<noteq> ''-1'' \<and> ns pg \<noteq> None
      then (if ns pg = Some 0
            then (let link = str_replace (CHR '' '') (CHR ''_'') (title pg) in
                  check_pages
                    (AList.update link pid links,
                     if link \<in> set (map fst links) then duplicates + 1 else duplicates) rest)
            else check_pages (links, duplicates) rest)
      else check_pages (links, duplicates) rest)"

fun check_loop ::
  "site \<Rightarrow> (string \<times> string) list \<Rightarrow> (string \<times> string) list \<times> nat \<Rightarrow> world \<Rightarrow> string list list
     \<Rightarrow> (error + (string \<times> string) list \<times> (string \<times> string) list) \<times> world" where
  "check_loop site rd (links, duplicates) w [] = (Inr (rd, links), w)"
| "check_loop site rd (links, duplicates) w (title_list # rest) =
     (case api_query site w (RedirectsQuery (joined title_list)) of
        (Inl e, w1) \<Rightarrow> (Inl e, w1)
      | (Inr result, w1) \<Rightarrow>
          (let rd1 = (case redirects result of None \<Rightarrow> rd | Some rs \<Rightarrow> add_redirects rd rs) in
           case pages result of
             None \<Rightarrow> (Inl KeyError, w1)
           | Some ps \<Rightarrow> check_loop site rd1 (check_pages (links, duplicates) ps) w1 rest))"

definition check_redirects ::
  "site \<Rightarrow> world \<Rightarrow> string list
     \<Rightarrow> (error + (string \<times> string) list \<times> (string \<times> string) list) \<times> world" where
  "check_redirects site w titles =
     check_loop site [] ([], 0) w (iterate (split_param_list titles))"

section \<open>get\_outlinks\_from\_api and get\_outlinks\<close>

text \<open>
  \<^verbatim>\<open>int(s)\<close> for a string: white space around an optional sign and decimal digits, the
  digits possibly separated by single underscores; \<open>None\<close> is \<open>ValueError\<close>.
\<close>

definition digit_of :: "char \<Rightarrow> nat option" where
  "digit_of c =
     (if c \<in> set ''0123456789'' then Some (of_char c - of_char (CHR ''0'')) else None)"

fun digits_from :: "nat \<Rightarrow> string \<Rightarrow> nat option" where
  "digits_from acc [] = Some acc"
| "digits_from acc [c] = map_option (\<lambda>d. 10 * acc + d) (digit_of c)"
| "digits_from acc (c # d # ds) =
     (case digit_of c of
        None \<Rightarrow> None
      | Some v \<Rightarrow>
          if d = CHR ''_'' then (if ds = [] then None else digits_from (10 * acc + v) ds)
          else digits_from (10 * acc + v) (d # ds))"

definition py_digits :: "string \<Rightarrow> nat option" where
  "py_digits s = (case s of [] \<Rightarrow> None | c # cs \<Rightarrow> digits_from 0 s)"

definition py_int :: "string \<Rightarrow> int option" where
  "py_int s =
     (case rev (dropWhile is_space (rev (dropWhile is_space s))) of
        [] \<Rightarrow> None
      | c # cs \<Rightarrow>
          if c = CHR ''-'' then map_option (\<lambda>n. - int n) (py_digits cs)
          else if c = CHR ''+'' then map_option int (py_digits cs)
          else map_option int (py_digits (c # cs)))"

text \<open>
  \<^verbatim>\<open>
  def get_outlinks_from_api(title):
      p_id = -1
      outlinks = []
      if title == '' or title == ' ':
          return p_id, outlinks
      params = {'action': 'query', 'prop': 'revisions', 'titles': title,
                'rvprop':'content', 'redirects':1}
      request = api.APIRequest(site, params)
      result = request.query()
      if int(list(result['query']['pages'].keys())[0]) < 1:
          logging.warning('ARTICLE NOT FOUND: {}'.format(title))
          return (p_id, outlinks)
      else:
          outlinks = []
          p_id = list(result['query']['pages'].keys())[0]
          rev = result['query']['pages'][p_id]['revisions'][0]
          content = rev['*']
          links = parse_text(content)
          for l in links:
              target = l.replace(' ', '_')
              outlinks.append(target)
          return (p_id, outlinks)
  \<close>
  The page id returned is the integer \<open>-1\<close> or a key of the response, a string.
\<close>

datatype page_id = IntId int | StrId string

definition get_outlinks_from_api ::
  "site \<Rightarrow> world \<Rightarrow> string \<Rightarrow> (error + page_id \<times> string list) \<times> world" where
  "get_outlinks_from_api site w t =
     (if t = [] \<or> t = '' '' then (Inr (IntId (- 1), []), w)
      else
        case api_query site w (RevisionsQuery t) of
          (Inl e, w1) \<Rightarrow> (Inl e, w1)
        | (Inr result, w1) \<Rightarrow>
            (case pages result of
               None \<Rightarrow> (Inl KeyError, w1)
             | Some [] \<Rightarrow> (Inl IndexError, w1)
             | Some ((p_id, pg) # _) \<Rightarrow>
                 (case py_int p_id of
                    None \<Rightarrow> (Inl ValueError, w1)
                  | Some n \<Rightarrow>
                      if n < 1 then (Inr (IntId (- 1), []), w1)
                      else
                        (case revisions pg of
                           None \<Rightarrow> (Inl KeyError, w1)
                         | Some [] \<Rightarrow> (Inl IndexError, w1)
                         | Some (content # _) \<Rightarrow>
                             (case parse_text site w1 content of
                                (Inl e, w2) \<Rightarrow> (Inl e, w2)
                              | (Inr links, w2) \<Rightarrow>
                                  (Inr (StrId p_id,
                                        map (\<lambda>l. str_replace (CHR '' '') (CHR ''_'') l)
                                          (map fst links)), w2))))))"

text \<open>
  \<^verbatim>\<open>
  def get_outlinks(title):
      outlinks_filename = '{}_articles.txt'.format(title.replace('/','.'))
      outlinks_saved = link_folder/outlinks_filename
      is_new_page = False
      try:
          with outlinks_saved.open('r') as f:
              outlinks_checked = f.read().splitlines()
      except IOError as e:
          outlinks_checked = []
      if outlinks_checked:
          logging.info(...)
      else:
          is_new_page = True
          (p, outlinks) = get_outlinks_from_api(title)
          (redirects, outlinks_checked) = check_redirects(outlinks)
      return (is_new_page, outlinks_checked)
  \<close>
  On a cache miss \<open>outlinks_checked\<close> is the dictionary \<open>links\<close> of \<open>check_redirects\<close>;
  the caller iterates it and takes its length, so the model returns its keys in order.
\<close>

definition read_cache :: "world \<Rightarrow> string \<Rightarrow> string list" where
  "read_cache w t =
     (case files w (link_path (cache_name t)) of
        None \<Rightarrow> []
      | Some content \<Rightarrow> splitlines (universal_newlines content))"

definition get_outlinks :: "site \<Rightarrow> world \<Rightarrow> string \<Rightarrow> (error + bool \<times> string list) \<times> world" where
  "get_outlinks site w t =
     (let outlinks_checked = read_cache w t in
      if outlinks_checked \<noteq> [] then (Inr (False, outlinks_checked), w)
      else
        case get_outlinks_from_api site w t of
          (Inl e, w1) \<Rightarrow> (Inl e, w1)
        | (Inr (p, outlinks), w1) \<Rightarrow>
            (case check_redirects site w1 outlinks of
               (Inl e, w2) \<Rightarrow> (Inl e, w2)
             | (Inr (rd, links), w2) \<Rightarrow> (Inr (True, map fst links), w2)))"

section \<open>extract\_network\<close>

text \<open>
  A row of the dictionary \<open>first_step\<close>, with the keys of \<open>csv_fields\<close>.
\<close>

record degree =
  seed :: bool
  links_from_seed :: int
  links_to_seed :: int
  in_degree :: int
  out_degree :: int
  out_WP :: int

type_synonym table = "string \<rightharpoonup> degree"

subsection \<open>The pass over the seeds\<close>

text \<open>
  \<^verbatim>\<open>
  try:
      first_step[seed]['out_degree'] += 1
      if(target in seeds_list):
          first_step[seed]['links_to_seed'] += 1
  except:
      if target in seeds_list:
          first_step[seed] = {'seed': True, 'links_from_seed': 0, 'links_to_seed': 1,
                              'in_degree': 0, 'out_degree': 1, 'out_WP': len(outlinks_checked)}
      else:
          first_step[seed] = {'seed': True, 'links_from_seed': 0, 'links_to_seed': 0,
                              'in_degree': 0, 'out_degree': 1, 'out_WP': len(outlinks_checked)}
  \<close>
  The only statement of the \<open>try\<close> block that can raise is the first lookup.
\<close>

definition seed_source :: "table \<Rightarrow> string list \<Rightarrow> string \<Rightarrow> string \<Rightarrow> int \<Rightarrow> table" where
  "seed_source first_step seeds sd target n =
     (case first_step sd of
        Some r \<Rightarrow>
          first_step(sd \<mapsto> r\<lparr>links_to_seed :=
                                  (if target \<in> set seeds then links_to_seed r + 1
                                   else links_to_seed r),
                                out_degree := out_degree r + 1\<rparr>)
      | None \<Rightarrow>
          first_step(sd \<mapsto> \<lparr>seed = True, links_from_seed = 0,
                              links_to_seed = (if target \<in> set seeds then 1 else 0),
                              in_degree = 0, out_degree = 1, out_WP = n\<rparr>))"

text \<open>
  \<^verbatim>\<open>
  try:
      first_step[target]['links_from_seed'] += 1
      first_step[target]['in_degree'] += 1
      if(target in seeds_list):
          first_step[target]['seed'] = True
  except:
      if target in seeds_list:
          first_step[target] = {'seed': True, 'links_from_seed': 1, 'links_to_seed': 0,
                                'in_degree': 1, 'out_degree': 0, 'out_WP': 0}
      else:
          first_step[target] = {'seed': False, 'links_from_seed': 1, 'links_to_seed': 0,
                                'in_degree': 1, 'out_degree': 0, 'out_WP': 0}
  \<close>
\<close>

definition seed_target :: "table \<Rightarrow> string list \<Rightarrow> string \<Rightarrow> table" where
  "seed_target first_step seeds target =
     (case first_step target of
        Some r \<Rightarrow>
          first_step(target \<mapsto> r\<lparr>seed := (if target \<in> set seeds then True else seed r),
                                    links_from_seed := links_from_seed r + 1,
                                    in_degree := in_degree r + 1\<rparr>)
      | None \<Rightarrow>
          first_step(target \<mapsto> \<lparr>seed = (target \<in> set seeds), links_from_seed = 1,
                                  links_to_seed = 0, in_degree = 1, out_degree = 0,
                                  out_WP = 0\<rparr>))"

text \<open>
  \<^verbatim>\<open>
  for target in outlinks_checked:
      if seed != target:
          net_file.write(seed + '\t' + target  + '\n')
          if is_new_page:
              page_list_file.write(target + '\n')
          try: ... except: ...
          try: ... except: ...
  \<close>
\<close>

fun seed_targets ::
  "string list \<Rightarrow> string \<Rightarrow> bool \<Rightarrow> int \<Rightarrow> table \<Rightarrow> world \<Rightarrow> string list \<Rightarrow> table \<times> world" where
  "seed_targets seeds sd is_new_page n first_step w [] = (first_step, w)"
| "seed_targets seeds sd is_new_page n first_step w (target # rest) =
     (if sd \<noteq> target
      then (let w1 = w\<lparr>net_file := net_file w @ [(sd, target)]\<rparr>;
                w2 = (if is_new_page
                      then append_file w1 (link_path (cache_name sd)) (target @ [LF])
                      else w1);
                fs1 = seed_source first_step seeds sd target n;
                fs2 = seed_target fs1 seeds target
            in seed_targets seeds sd is_new_page n fs2 w2 rest)
      else seed_targets seeds sd is_new_page n first_step w rest)"

text \<open>
  \<^verbatim>\<open>
  for seed in set(seeds_list.keys()):
      (is_new_page, outlinks_checked) = get_outlinks(seed)
      links_to_seedlinks.append(outlinks_checked)
      if is_new_page:
          page_list_filename = seed.replace('/','.') + '_articles.txt'
          page_list_file = (link_folder/page_list_filename).open('a+')
          if seed in first_step:
              first_step[seed]['out_WP'] = len(outlinks_checked)
      for target in outlinks_checked: ...
      if is_new_page:
          page_list_file.close()
  \<close>
  The last argument is the list of the seeds still to visit.
\<close>

fun seed_pass ::
  "site \<Rightarrow> string list \<Rightarrow> string list list \<times> table \<Rightarrow> world \<Rightarrow> string list
     \<Rightarrow> (error + string list list \<times> table) \<times> world" where
  "seed_pass site seeds (links_to_seedlinks, first_step) w [] =
     (Inr (links_to_seedlinks, first_step), w)"
| "seed_pass site seeds (links_to_seedlinks, first_step) w (sd # rest) =
     (case get_outlinks site w sd of
        (Inl e, w1) \<Rightarrow> (Inl e, w1)
      | (Inr (is_new_page, outlinks_checked), w1) \<Rightarrow>
          (let n = int (length outlinks_checked);
               w2 = (if is_new_page then open_append w1 (link_path (cache_name sd)) else w1);
               fs1 = (if is_new_page
                      then (case first_step sd of
                              Some r \<Rightarrow> first_step(sd \<mapsto> r\<lparr>out_WP := n\<rparr>)
                            | None \<Rightarrow> first_step)
                      else first_step);
               (fs2, w3) = seed_targets seeds sd is_new_page n fs1 w2 outlinks_checked
           in seed_pass site seeds (links_to_seedlinks @ [outlinks_checked], fs2) w3 rest))"

subsection \<open>The pass over the outlinks of the seeds\<close>

text \<open>
  \<^verbatim>\<open>
  net_file.write( title + '\t' + target  + '\n')
  first_step[title]['links_to_seed'] += 1       # only when the target is a seed
  first_step[title]['out_degree'] += 1
  first_step[target]['in_degree'] += 1
  \<close>
  Here every lookup is unguarded: a missing key raises \<open>KeyError\<close>, after the edge has
  been written.
\<close>

definition outlink_edge :: "bool \<Rightarrow> string \<Rightarrow> string \<Rightarrow> table \<Rightarrow> error + table" where
  "outlink_edge to_seed t target first_step =
     (case first_step t of
        None \<Rightarrow> Inl KeyError
      | Some r \<Rightarrow>
          (let fs1 = first_step(t \<mapsto> r\<lparr>links_to_seed :=
                                            (if to_seed then links_to_seed r + 1
                                             else links_to_seed r),
                                          out_degree := out_degree r + 1\<rparr>)
           in case fs1 target of
                None \<Rightarrow> Inl KeyError
              | Some r' \<Rightarrow> Inr (fs1(target \<mapsto> r'\<lparr>in_degree := in_degree r' + 1\<rparr>))))"

text \<open>
  \<^verbatim>\<open>
  for target in outlinks_checked:
      if is_new_page:
          page_list_file_title.write(target + '\n')
      if target in seeds_list.keys( ) and target != title:
          ...
      else:
          if target in links_to_seedlinks and target != title:
              ...
  \<close>
\<close>

fun outlink_targets ::
  "string list \<Rightarrow> string list \<Rightarrow> string \<Rightarrow> bool \<Rightarrow> table \<Rightarrow> world \<Rightarrow> string list
     \<Rightarrow> (error + table) \<times> world" where
  "outlink_targets seeds links_to_seedlinks t is_new_page first_step w [] = (Inr first_step, w)"
| "outlink_targets seeds links_to_seedlinks t is_new_page first_step w (target # rest) =
     (let w1 = (if is_new_page
                then append_file w (link_path (cache_name t)) (target @ [LF])
                else w)
      in if target \<in> set seeds \<and> target \<noteq> t
         then (let w2 = w1\<lparr>net_file := net_file w1 @ [(t, target)]\<rparr>
               in case outlink_edge True t target first_step of
                    Inl e \<Rightarrow> (Inl e, w2)
                  | Inr fs1 \<Rightarrow> outlink_targets seeds links_to_seedlinks t is_new_page fs1 w2 rest)
         else if target \<in> set links_to_seedlinks \<and> target \<noteq> t
         then (let w2 = w1\<lparr>net_file := net_file w1 @ [(t, target)]\<rparr>
               in case outlink_edge False t target first_step of
                    Inl e \<Rightarrow> (Inl e, w2)
                  | Inr fs1 \<Rightarrow> outlink_targets seeds links_to_seedlinks t is_new_page fs1 w2 rest)
         else outlink_targets seeds links_to_seedlinks t is_new_page first_step w1 rest)"

text \<open>
  \<^verbatim>\<open>
  for title in links_to_seedlinks:
      (is_new_page, outlinks_checked) = get_outlinks(title)
      if is_new_page:
          page_list_file_title_name = title.replace('/','.') + '_articles.txt'
          page_list_file_title = (link_folder/page_list_file_title_name).open('w')
          first_step[title]['out_WP'] = len(outlinks_checked)
      for target in outlinks_checked: ...
      if is_new_page:
          page_list_file_title.close()
  \<close>
  The last argument is the list of the titles still to visit.
\<close>

fun outlink_pass ::
  "site \<Rightarrow> string list \<Rightarrow> string list \<Rightarrow> table \<Rightarrow> world \<Rightarrow> string list
     \<Rightarrow> (error + table) \<times> world" where
  "outlink_pass site seeds links_to_seedlinks first_step w [] = (Inr first_step, w)"
| "outlink_pass site seeds links_to_seedlinks first_step w (t # rest) =
     (case get_outlinks site w t of
        (Inl e, w1) \<Rightarrow> (Inl e, w1)
      | (Inr (is_new_page, outlinks_checked), w1) \<Rightarrow>
          (let w2 = (if is_new_page then open_write w1 (link_path (cache_name t)) else w1)
           in case (if is_new_page
                    then (case first_step t of
                            None \<Rightarrow> Inl KeyError
                          | Some r \<Rightarrow>
                              Inr (first_step(t \<mapsto> r\<lparr>out_WP := int (length outlinks_checked)\<rparr>)))
                    else Inr first_step) of
                Inl e \<Rightarrow> (Inl e, w2)
              | Inr fs1 \<Rightarrow>
                  (case outlink_targets seeds links_to_seedlinks t is_new_page fs1 w2
                          outlinks_checked of
                     (Inl e, w3) \<Rightarrow> (Inl e, w3)
                   | (Inr fs2, w3) \<Rightarrow> outlink_pass site seeds links_to_seedlinks fs2 w3 rest)))"

subsection \<open>The whole run\<close>

text \<open>
  \<^verbatim>\<open>
  def extract_network(seed_file):
      links_to_seedlinks = []
      seeds_list = load_seed(seed_file)
      first_step = {}
      for seed in set(seeds_list.keys()): ...
      links_to_seedlinks = list(itertools.chain.from_iterable(links_to_seedlinks))
      links_to_seedlinks = list(set(links_to_seedlinks) - set(seeds_list.keys()) )
      for title in links_to_seedlinks: ...
      net_file.close()
      # Write degrees in a file
      ...
          for page in first_step.keys():
              writer.writerow([page] + [first_step[page][degree] for degree in csv_fields])
  \<close>
  The order in which a Python \<open>set\<close> of strings is iterated is not fixed by the
  program: \<open>set_order xs\<close> is the order in which the set built from the elements \<open>xs\<close> is
  iterated, a parameter.  The result of a run that reaches the export is the table that
  is written to the degree file, one row for each key of \<open>first_step\<close>.
\<close>

definition frontier_of :: "(string list \<Rightarrow> string list) \<Rightarrow> string list \<Rightarrow> string list list \<Rightarrow> string list" where
  "frontier_of set_order seeds links_to_seedlinks =
     set_order (filter (\<lambda>t. t \<notin> set seeds) (concat links_to_seedlinks))"

definition extract_network ::
  "(string list \<Rightarrow> string list) \<Rightarrow> site \<Rightarrow> world \<Rightarrow> string \<Rightarrow> (error + table) \<times> world" where
  "extract_network set_order site w seed_file =
     (case load_seed w seed_file of
        Inl e \<Rightarrow> (Inl e, w)
      | Inr seeds_list \<Rightarrow>
          (let seeds = map fst seeds_list in
           case seed_pass site seeds ([], Map.empty) w (set_order seeds) of
             (Inl e, w1) \<Rightarrow> (Inl e, w1)
           | (Inr (links_to_seedlinks, first_step), w1) \<Rightarrow>
               (let frontier = frontier_of set_order seeds links_to_seedlinks
                in outlink_pass site seeds frontier first_step w1 frontier)))"

section \<open>What the service answered\<close>

text \<open>
  The pages of the answer to the \<open>i\<close>-th request of a log: the service is asked with the
  requests before it as its history.  A request that raised, or an answer without
  \<^verbatim>\<open>'pages'\<close>, has none.
\<close>

definition answered :: "site \<Rightarrow> request list \<Rightarrow> nat \<Rightarrow> (string \<times> page) list" where
  "answered site log i =
     (case site (take i log) (log ! i) of
        Inl e \<Rightarrow> []
      | Inr result \<Rightarrow> (case pages result of None \<Rightarrow> [] | Some ps \<Rightarrow> ps))"

section \<open>Example runs\<close>

definition article :: "int \<Rightarrow> string \<Rightarrow> string \<Rightarrow> page" where
  "article n t body = \<lparr>ns = Some n, title = t, revisions = Some [body]\<rparr>"

definition answer :: "(string \<times> page) list \<Rightarrow> error + response" where
  "answer ps = Inr \<lparr>redirects = None, pages = Some ps\<rparr>"

text \<open>
  A service for the scenario of the specification: article \<open>A\<close> links to \<open>B\<close> and \<open>C\<close>,
  \<open>B\<close> to \<open>A\<close> and \<open>D\<close>, \<open>C\<close> to \<open>B\<close>.  The seed file holds \<open>A\<close>, no outlink list is cached.
\<close>

definition scenario_site :: site where
  "scenario_site h req =
     (if req = RevisionsQuery ''A'' then answer [(''1'', article 0 ''A'' ''[[B]] and [[C]]'')]
      else if req = RevisionsQuery ''B'' then answer [(''2'', article 0 ''B'' ''[[A]] [[D]]'')]
      else if req = RevisionsQuery ''C'' then answer [(''3'', article 0 ''C'' ''[[B]]'')]
      else if req = ParseQuery ''B|C'' \<or> req = RedirectsQuery ''B|C''
        then answer [(''2'', article 0 ''B'' []), (''3'', article 0 ''C'' [])]
      else if req = ParseQuery ''A|D'' \<or> req = RedirectsQuery ''A|D''
        then answer [(''1'', article 0 ''A'' []), (''4'', article 0 ''D'' [])]
      else if req = ParseQuery ''B'' \<or> req = RedirectsQuery ''B''
        then answer [(''2'', article 0 ''B'' [])]
      else Inl RequestError)"

definition scenario_world :: world where
  "scenario_world = \<lparr>files = [''seeds.txt'' \<mapsto> ''A\<newline>''], net_file = [], requests = []\<rparr>"

text \<open>
  A service that knows the articles \<open>A\<close> and \<open>B\<close> and the talk page \<open>Talk:X\<close>
  (namespace 1), and a body that links to \<open>B\<close> twice.
\<close>

definition talk_body :: string where
  "talk_body = ''[[B]] [[Talk:X]] [[A]] [[B|again]]''"

definition talk_site :: site where
  "talk_site h req =
     (if req = ParseQuery ''B|Talk:X|A|B''
      then answer [(''1'', article 0 ''A'' []), (''2'', article 0 ''B'' []),
                   (''9'', article 1 ''Talk:X'' [])]
      else Inl RequestError)"

section \<open>Edges and degrees\<close>

text \<open>
  The edges of a stream that avoid loops and end in a seed or in a title of the
  frontier.
\<close>

definition closed_edges ::
  "string list \<Rightarrow> string list \<Rightarrow> (string \<times> string) list \<Rightarrow> bool" where
  "closed_edges seeds frontier es \<longleftrightarrow>
     (\<forall>e \<in> set es. fst e \<noteq> snd e \<and> (snd e \<in> set seeds \<or> snd e \<in> set frontier))"

text \<open>
  The number of edges of a stream that end in a title, and that start from it; a table is
  consistent with a stream when every row holds these two numbers and a title without a
  row has no edge.
\<close>

definition in_count :: "(string \<times> string) list \<Rightarrow> string \<Rightarrow> int" where
  "in_count es t = int (length (filter (\<lambda>e. snd e = t) es))"

definition out_count :: "(string \<times> string) list \<Rightarrow> string \<Rightarrow> int" where
  "out_count es t = int (length (filter (\<lambda>e. fst e = t) es))"

definition consistent :: "table \<Rightarrow> (string \<times> string) list \<Rightarrow> bool" where
  "consistent first_step es \<longleftrightarrow>
     (\<forall>t. case first_step t of
            None \<Rightarrow> in_count es t = 0 \<and> out_count es t = 0
          | Some r \<Rightarrow> in_degree r = in_count es t \<and> out_degree r = out_count es t)"

text \<open>
  The run of the scenario, and its pass over the seeds alone.
\<close>

definition scenario_seed_pass :: "(error + string list list \<times> table) \<times> world" where
  "scenario_seed_pass = seed_pass scenario_site [''A''] ([], Map.empty) scenario_world [''A'']"

definition scenario_run :: "(error + table) \<times> world" where
  "scenario_run = extract_network remdups scenario_site scenario_world ''seeds.txt''"

text \<open>
  A service for a run with two seeds: article \<open>P\<close> links to \<open>R\<close>, article \<open>R\<close> links to
  \<open>Q\<close>, article \<open>Q\<close> has no links.  The seed file holds \<open>P\<close> and \<open>Q\<close>, no outlink list is
  cached.
\<close>

definition stranded_site :: site where
  "stranded_site h req =
     (if req = RevisionsQuery ''P'' then answer [(''1'', article 0 ''P'' ''[[R]]'')]
      else if req = RevisionsQuery ''Q'' then answer [(''2'', article 0 ''Q'' ''no links here'')]
      else if req = RevisionsQuery ''R'' then answer [(''3'', article 0 ''R'' ''see [[Q]]'')]
      else if req = ParseQuery ''R'' \<or> req = RedirectsQuery ''R''
        then answer [(''3'', article 0 ''R'' [])]
      else if req = ParseQuery ''Q'' \<or> req = RedirectsQuery ''Q''
        then answer [(''2'', article 0 ''Q'' [])]
      else Inl RequestError)"

definition stranded_world :: world where
  "stranded_world =
     \<lparr>files = [''seeds.txt'' \<mapsto> ''P\<newline>Q\<newline>''], net_file = [], requests = []\<rparr>"

definition stranded_seed_pass :: "(error + string list list \<times> table) \<times> world" where
  "stranded_seed_pass =
     seed_pass stranded_site [''P'', ''Q''] ([], Map.empty) stranded_world [''P'', ''Q'']"

section \<open>The outlink cache\<close>

text \<open>
  The text of a cache file that holds the titles \<open>ts\<close>, one on each line, and the
  titles that a line can hold: those without a line boundary.
\<close>

definition cache_text :: "string list \<Rightarrow> string" where
  "cache_text ts = concat (map (\<lambda>t. t @ [LF]) ts)"

definition plain :: "string \<Rightarrow> bool" where
  "plain t \<longleftrightarrow> list_all (\<lambda>c. \<not> is_linebreak c) t"

text \<open>
  A service for a run with the seed \<open>S\<close>, whose article links to itself and to \<open>T\<close>;
  the article \<open>T\<close> links back to \<open>S\<close>.  No outlink list is cached.
\<close>

definition selflink_site :: site where
  "selflink_site h req =
     (if req = RevisionsQuery ''S'' then answer [(''5'', article 0 ''S'' ''[[S]] and [[T]]'')]
      else if req = RevisionsQuery ''T'' then answer [(''6'', article 0 ''T'' ''back to [[S]]'')]
      else if req = ParseQuery ''S|T'' \<or> req = RedirectsQuery ''S|T''
        then answer [(''5'', article 0 ''S'' []), (''6'', article 0 ''T'' [])]
      else if req = ParseQuery ''S'' \<or> req = RedirectsQuery ''S''
        then answer [(''5'', article 0 ''S'' [])]
      else Inl RequestError)"

definition selflink_world :: world where
  "selflink_world = \<lparr>files = [''seeds.txt'' \<mapsto> ''S\<newline>''], net_file = [], requests = []\<rparr>"

definition selflink_run :: "(error + table) \<times> world" where
  "selflink_run = extract_network remdups selflink_site selflink_world ''seeds.txt''"

section \<open>Properties of the string helpers and of batching\<close>

text \<open>
  C9 (idempotent normalization).  Normalizing a raw title replaces every space by the
  joining character \<open>_\<close> and leaves every other character alone
  (\<^verbatim>\<open>el.replace(' ', '_')\<close> in \<open>load_seed\<close>); doing it twice gives the same string
  as doing it once.
\<close>

theorem normalize_idempotent:
  "str_replace (CHR '' '') (CHR ''_'') (str_replace (CHR '' '') (CHR ''_'') t)
     = str_replace (CHR '' '') (CHR ''_'') t"
  by (simp add: str_replace_def)

lemma concat_slices:
  "concat (map (\<lambda>x. take n (drop x xs)) (map (\<lambda>k. k * n) [0 ..< m])) = take (m * n) xs"
proof (induction m)
  case 0
  show ?case by simp
next
  case (Suc m)
  have "take (m * n) xs @ take n (drop (m * n) xs) = take (m * n + n) xs"
    by (simp add: take_add)
  with Suc show ?case by (simp add: add.commute)
qed

lemma iterate_concat: "concat (iterate (split_param_list xs)) = xs"
proof (cases "length xs < 1")
  case True
  then show ?thesis by (simp add: split_param_list_def)
next
  case False
  have "length xs \<le> ((length xs + chunk_len - 1) div chunk_len) * chunk_len"
    by (simp add: chunk_len_def)
  then have "take (((length xs + chunk_len - 1) div chunk_len) * chunk_len) xs = xs"
    by simp
  with False show ?thesis
    by (simp add: split_param_list_def range_step_def concat_slices del: map_map)
qed

lemma iterate_length: "b \<in> set (iterate (split_param_list xs)) \<Longrightarrow> length b \<le> chunk_len"
  by (auto simp: split_param_list_def split: if_splits)

lemma iterate_nonempty: "b \<in> set (iterate (split_param_list xs)) \<Longrightarrow> b \<noteq> []"
  by (auto simp: split_param_list_def range_step_def chunk_len_def split: if_splits)

text \<open>
  C5 (batching).  Every batch that a loop over \<open>split_param_list xs\<close> visits has at
  most 50 elements, the batches concatenated in order give back the input, and an empty
  input gives a result whose iteration visits no batch.
\<close>

theorem split_param_list_batches:
  "(\<forall>b \<in> set (iterate (split_param_list xs)). length b \<le> 50)
   \<and> concat (iterate (split_param_list xs)) = xs
   \<and> iterate (split_param_list ([] :: 'a list)) = []"
proof -
  have "\<forall>b \<in> set (iterate (split_param_list xs)). length b \<le> 50"
    using iterate_length [of _ xs] by (simp add: chunk_len_def)
  moreover have "iterate (split_param_list ([] :: 'a list)) = []"
    by (simp add: split_param_list_def)
  ultimately show ?thesis by (simp add: iterate_concat)
qed

theorem split_param_list_batches_witness:
  "iterate (split_param_list (replicate 51 (0::nat))) = [replicate 50 0, [0]]
   \<and> concat (iterate (split_param_list (replicate 51 (0::nat)))) = replicate 51 0
   \<and> iterate (split_param_list ([] :: nat list)) = []"
proof -
  have "iterate (split_param_list (replicate 51 (0::nat))) = [replicate 50 0, [0]]"
    by code_simp
  then show ?thesis
    using split_param_list_batches [of "replicate 51 (0::nat)"] by simp
qed

section \<open>Properties of the batch resolver and of the link extractor\<close>

lemma update_subset: "set (AList.update k v al) \<subseteq> insert (k, v) (set al)"
  by (induction al) auto

lemma answered_append: "i < length log \<Longrightarrow> answered site (log @ sfx) i = answered site log i"
  by (simp add: answered_def nth_append)

lemma answered_last:
  "site log req = Inr result \<Longrightarrow> pages result = Some ps \<Longrightarrow> answered site (log @ [req]) (length log) = ps"
  by (simp add: answered_def)

lemma check_pages_entries:
  "(k, pid) \<in> set (fst (check_pages (links, d) ps)) \<Longrightarrow>
     (k, pid) \<in> set links \<or>
     (pid \<noteq> ''-1'' \<and> (\<exists>pg. (pid, pg) \<in> set ps \<and> ns pg = Some 0
        \<and> k = str_replace (CHR '' '') (CHR ''_'') (title pg)))"
proof (induction ps arbitrary: links d)
  case Nil
  then show ?case by simp
next
  case (Cons p ps)
  obtain pid' pg' where p: "p = (pid', pg')" by (cases p)
  show ?case
  proof (cases "pid' \<noteq> ''-1'' \<and> ns pg' = Some 0")
    case True
    let ?link = "str_replace (CHR '' '') (CHR ''_'') (title pg')"
    from Cons.prems p True obtain d' where
      "(k, pid) \<in> set (fst (check_pages (AList.update ?link pid' links, d') ps))"
      by (auto simp: Let_def)
    from Cons.IH [OF this] show ?thesis
    proof
      assume "(k, pid) \<in> set (AList.update ?link pid' links)"
      with update_subset have "(k, pid) = (?link, pid') \<or> (k, pid) \<in> set links" by fastforce
      with True p show ?thesis by auto
    next
      assume "pid \<noteq> ''-1'' \<and> (\<exists>pg. (pid, pg) \<in> set ps \<and> ns pg = Some 0
        \<and> k = str_replace (CHR '' '') (CHR ''_'') (title pg))"
      then show ?thesis by auto
    qed
  next
    case False
    with Cons.prems p have "(k, pid) \<in> set (fst (check_pages (links, d) ps))"
      by (auto split: if_splits)
    from Cons.IH [OF this] show ?thesis by auto
  qed
qed

lemma check_loop_entries:
  "check_loop site rd (links, d) w batches = (Inr (rd', links'), w') \<Longrightarrow>
   (k, pid) \<in> set links' \<Longrightarrow>
     (\<exists>sfx. requests w' = requests w @ sfx) \<and>
     ((k, pid) \<in> set links \<or>
      (pid \<noteq> ''-1'' \<and> (\<exists>i pg. length (requests w) \<le> i \<and> i < length (requests w')
          \<and> (pid, pg) \<in> set (answered site (requests w') i) \<and> ns pg = Some 0
          \<and> k = str_replace (CHR '' '') (CHR ''_'') (title pg))))"
proof (induction batches arbitrary: rd links d w)
  case Nil
  then show ?case by simp
next
  case (Cons b bs)
  let ?req = "RedirectsQuery (joined b)"
  let ?w1 = "w\<lparr>requests := requests w @ [?req]\<rparr>"
  from Cons.prems(1) obtain result ps rd1 where
    res: "site (requests w) ?req = Inr result" and ps: "pages result = Some ps" and
    rec: "check_loop site rd1 (check_pages (links, d) ps) ?w1 bs = (Inr (rd', links'), w')"
    by (auto simp: api_query_def Let_def split: sum.splits option.splits)
  obtain l1 d1 where cp: "check_pages (links, d) ps = (l1, d1)" by (cases "check_pages (links, d) ps")
  note ih = Cons.IH [OF rec [unfolded cp] Cons.prems(2)]
  from ih [THEN conjunct1] obtain sfx where sfx: "requests w' = (requests w @ [?req]) @ sfx"
    by auto
  from ih [THEN conjunct2] have
    alt: "(k, pid) \<in> set l1 \<or>
      (pid \<noteq> ''-1'' \<and> (\<exists>i pg. Suc (length (requests w)) \<le> i \<and> i < length (requests w')
          \<and> (pid, pg) \<in> set (answered site (requests w') i) \<and> ns pg = Some 0
          \<and> k = str_replace (CHR '' '') (CHR ''_'') (title pg)))"
    by simp
  have ans: "answered site (requests w') (length (requests w)) = ps"
    using answered_last [of site "requests w" ?req result ps, OF res ps] answered_append [of "length (requests w)" "requests w @ [?req]" site sfx]
    by (simp add: sfx)
  from alt show ?case
  proof
    assume "(k, pid) \<in> set l1"
    then have "(k, pid) \<in> set (fst (check_pages (links, d) ps))" by (simp add: cp)
    from check_pages_entries [OF this] ans sfx show ?thesis
      by auto
  next
    assume "pid \<noteq> ''-1'' \<and> (\<exists>i pg. Suc (length (requests w)) \<le> i \<and> i < length (requests w')
          \<and> (pid, pg) \<in> set (answered site (requests w') i) \<and> ns pg = Some 0
          \<and> k = str_replace (CHR '' '') (CHR ''_'') (title pg))"
    then obtain i pg where "pid \<noteq> ''-1''" "Suc (length (requests w)) \<le> i" "i < length (requests w')"
      "(pid, pg) \<in> set (answered site (requests w') i)" "ns pg = Some 0"
      "k = str_replace (CHR '' '') (CHR ''_'') (title pg)"
      by blast
    moreover from this have "length (requests w) \<le> i" by simp
    ultimately have "pid \<noteq> ''-1'' \<and> (\<exists>i pg. length (requests w) \<le> i \<and> i < length (requests w')
          \<and> (pid, pg) \<in> set (answered site (requests w') i) \<and> ns pg = Some 0
          \<and> k = str_replace (CHR '' '') (CHR ''_'') (title pg))"
      by blast
    with sfx show ?thesis by auto
  qed
qed

text \<open>
  C6 (namespace and missing-page filtering).  Every entry of the map \<open>links\<close> that
  \<open>check_redirects\<close> returns comes from a page that the service returned to one of the
  requests of this call, and that page has a page id other than the missing-page sentinel
  \<^verbatim>\<open>'-1'\<close> and namespace 0; the key of the entry is the title of that page with spaces
  replaced.  So a title for which the service only returns pages of another namespace, or
  the page \<^verbatim>\<open>'-1'\<close>, has no entry.
\<close>

theorem check_redirects_filter:
  assumes "check_redirects site w titles = (Inr (rd, links), w')"
    and "(k, pid) \<in> set links"
  shows "pid \<noteq> ''-1'' \<and>
         (\<exists>i pg. length (requests w) \<le> i \<and> i < length (requests w')
            \<and> (pid, pg) \<in> set (answered site (requests w') i) \<and> ns pg = Some 0
            \<and> k = str_replace (CHR '' '') (CHR ''_'') (title pg))"
  using check_loop_entries [OF assms(1) [unfolded check_redirects_def] assms(2)] by simp

theorem check_redirects_filter_witness:
  "fst (check_redirects scenario_site scenario_world [''B'', ''C''])
     = Inr ([], [(''B'', ''2''), (''C'', ''3'')])
   \<and> ''2'' \<noteq> ''-1''
   \<and> (\<exists>i pg. length (requests scenario_world) \<le> i
         \<and> i < length (requests (snd (check_redirects scenario_site scenario_world [''B'', ''C''])))
         \<and> (''2'', pg) \<in> set (answered scenario_site
               (requests (snd (check_redirects scenario_site scenario_world [''B'', ''C'']))) i)
         \<and> ns pg = Some 0
         \<and> ''B'' = str_replace (CHR '' '') (CHR ''_'') (title pg))"
proof -
  let ?r = "check_redirects scenario_site scenario_world [''B'', ''C'']"
  have f: "fst ?r = Inr ([], [(''B'', ''2''), (''C'', ''3'')])"
    by code_simp
  then have r: "?r = (Inr ([], [(''B'', ''2''), (''C'', ''3'')]), snd ?r)"
    by (simp add: prod_eq_iff)
  have m: "(''B'', ''2'') \<in> set [(''B'', ''2''), (''C'', ''3'')]"
    by simp
  from check_redirects_filter [OF r m] f show ?thesis
    by simp
qed

text \<open>
  C7 (empty-title short-circuit), as the code has it: for the empty title and for the
  title that is one space character, \<open>get_outlinks_from_api\<close> returns the page id \<open>-1\<close>
  and no outlinks, and the state is the one it was called in: no request was sent.  The
  guard compares the title with these two strings only.
\<close>

theorem empty_title_short_circuit:
  "t = [] \<or> t = '' '' \<Longrightarrow> get_outlinks_from_api site w t = (Inr (IntId (- 1), []), w)"
  by (auto simp: get_outlinks_from_api_def)

theorem empty_title_short_circuit_witness:
  "get_outlinks_from_api scenario_site scenario_world '' ''
     = (Inr (IntId (- 1), []), scenario_world)"
  using empty_title_short_circuit [of "'' ''" scenario_site scenario_world] by simp

text \<open>
  A title of two spaces consists only of white space, and a request is sent for it.
\<close>

theorem whitespace_title_counterexample:
  "list_all is_space ''  ''
   \<and> requests (snd (get_outlinks_from_api scenario_site scenario_world ''  ''))
       = [RevisionsQuery ''  '']"
  by code_simp

lemma parse_pages_distinct: "distinct (map fst links) \<Longrightarrow> distinct (map fst (parse_pages links ps))"
  by (induction links ps rule: parse_pages.induct) (auto simp: distinct_update)

lemma parse_pages_entries:
  "k \<in> fst ` set (parse_pages links ps) \<Longrightarrow>
     k \<in> fst ` set links \<or>
     (\<exists>pid pg. (pid, pg) \<in> set ps \<and> pid \<noteq> ''-1'' \<and> ns pg = Some 0 \<and> k = title pg)"
proof (induction links ps rule: parse_pages.induct)
  case (1 links)
  then show ?case by simp
next
  case (2 links pid pg rest)
  show ?case
  proof (cases "pid \<noteq> ''-1'' \<and> ns pg = Some 0")
    case True
    with 2 have "k \<in> fst ` set (AList.update (title pg) 1 links) \<or>
      (\<exists>pid pg. (pid, pg) \<in> set rest \<and> pid \<noteq> ''-1'' \<and> ns pg = Some 0 \<and> k = title pg)"
      by simp
    then show ?thesis
    proof
      assume "k \<in> fst ` set (AList.update (title pg) 1 links)"
      then have "k = title pg \<or> k \<in> fst ` set links" by (simp add: dom_update)
      with True show ?thesis by auto
    next
      assume "\<exists>pid pg. (pid, pg) \<in> set rest \<and> pid \<noteq> ''-1'' \<and> ns pg = Some 0 \<and> k = title pg"
      then show ?thesis by auto
    qed
  next
    case False
    with 2 have "k \<in> fst ` set links \<or>
      (\<exists>pid pg. (pid, pg) \<in> set rest \<and> pid \<noteq> ''-1'' \<and> ns pg = Some 0 \<and> k = title pg)"
      by (auto split: if_splits)
    then show ?thesis by auto
  qed
qed

lemma parse_loop_distinct:
  "parse_loop site links w batches = (Inr links', w') \<Longrightarrow> distinct (map fst links)
     \<Longrightarrow> distinct (map fst links')"
  by (induction batches arbitrary: links w)
     (auto simp: api_query_def parse_pages_distinct split: sum.splits option.splits)

lemma parse_loop_requests:
  "parse_loop site links w batches = (Inr links', w')
     \<Longrightarrow> requests w' = requests w @ map (\<lambda>b. ParseQuery (joined b)) batches"
  by (induction batches arbitrary: links w)
     (auto simp: api_query_def split: sum.splits option.splits)

lemma parse_loop_entries:
  "parse_loop site links w batches = (Inr links', w') \<Longrightarrow> k \<in> fst ` set links' \<Longrightarrow>
     k \<in> fst ` set links \<or>
     (\<exists>i pid pg. length (requests w) \<le> i \<and> i < length (requests w')
          \<and> (pid, pg) \<in> set (answered site (requests w') i)
          \<and> pid \<noteq> ''-1'' \<and> ns pg = Some 0 \<and> k = title pg)"
proof (induction batches arbitrary: links w)
  case Nil
  then show ?case by simp
next
  case (Cons b bs)
  let ?req = "ParseQuery (joined b)"
  let ?w1 = "w\<lparr>requests := requests w @ [?req]\<rparr>"
  from Cons.prems(1) obtain result where res: "site (requests w) ?req = Inr result"
    by (auto simp: api_query_def split: sum.splits)
  define ps where "ps = (case pages result of None \<Rightarrow> [] | Some ps \<Rightarrow> ps)"
  from Cons.prems(1) res have rec: "parse_loop site (parse_pages links ps) ?w1 bs = (Inr links', w')"
    by (auto simp: api_query_def ps_def split: option.splits)
  from parse_loop_requests [OF rec] have sfx:
    "requests w' = (requests w @ [?req]) @ map (\<lambda>b. ParseQuery (joined b)) bs"
    by simp
  have ans: "answered site (requests w') (length (requests w)) = ps"
    using res by (simp add: answered_def sfx ps_def)
  from Cons.IH [OF rec Cons.prems(2)] show ?case
  proof
    assume "k \<in> fst ` set (parse_pages links ps)"
    from parse_pages_entries [OF this] show ?thesis
    proof
      assume "k \<in> fst ` set links"
      then show ?thesis ..
    next
      assume "\<exists>pid pg. (pid, pg) \<in> set ps \<and> pid \<noteq> ''-1'' \<and> ns pg = Some 0 \<and> k = title pg"
      then obtain pid pg where "(pid, pg) \<in> set (answered site (requests w') (length (requests w)))"
        "pid \<noteq> ''-1''" "ns pg = Some 0" "k = title pg"
        using ans by blast
      moreover have "length (requests w) < length (requests w')" by (simp add: sfx)
      ultimately show ?thesis by blast
    qed
  next
    assume "\<exists>i pid pg. length (requests ?w1) \<le> i \<and> i < length (requests w')
          \<and> (pid, pg) \<in> set (answered site (requests w') i)
          \<and> pid \<noteq> ''-1'' \<and> ns pg = Some 0 \<and> k = title pg"
    then obtain i pid pg where "Suc (length (requests w)) \<le> i" "i < length (requests w')"
      "(pid, pg) \<in> set (answered site (requests w') i)" "pid \<noteq> ''-1''" "ns pg = Some 0" "k = title pg"
      by auto
    moreover from this have "length (requests w) \<le> i" by simp
    ultimately show ?thesis by blast
  qed
qed

text \<open>
  C4 (link extractor), as the code has it: \<open>parse_text\<close> sends the raw candidate titles
  that the pattern finds in the body to the service, in batches and in the order of
  the body, and returns a dictionary, so no key occurs twice; every key is the title of a
  page that the service returned to one of these requests, with a page id other than
  \<^verbatim>\<open>'-1'\<close> and namespace 0.  Filtering by namespace and deduplication happen here, and
  once more in \<open>check_redirects\<close>.
\<close>

theorem parse_text_resolved:
  assumes "parse_text site w content = (Inr links, w')"
  shows "distinct (map fst links)
    \<and> requests w' = requests w @ map (\<lambda>b. ParseQuery (joined b))
                                   (iterate (split_param_list (findall_linkP content)))
    \<and> (\<forall>k \<in> fst ` set links.
          \<exists>i pid pg. length (requests w) \<le> i \<and> i < length (requests w')
            \<and> (pid, pg) \<in> set (answered site (requests w') i)
            \<and> pid \<noteq> ''-1'' \<and> ns pg = Some 0 \<and> k = title pg)"
proof -
  note run = assms [unfolded parse_text_def]
  have "distinct (map fst links)"
    using parse_loop_distinct [OF run] by simp
  moreover note parse_loop_requests [OF run]
  moreover have "\<forall>k \<in> fst ` set links.
          \<exists>i pid pg. length (requests w) \<le> i \<and> i < length (requests w')
            \<and> (pid, pg) \<in> set (answered site (requests w') i)
            \<and> pid \<noteq> ''-1'' \<and> ns pg = Some 0 \<and> k = title pg"
    using parse_loop_entries [OF run] by auto
  ultimately show ?thesis by simp
qed

theorem parse_text_resolved_witness:
  "fst (parse_text talk_site scenario_world talk_body) = Inr [(''A'', 1), (''B'', 1)]
   \<and> distinct (map fst [(''A'', 1 :: int), (''B'', 1)])
   \<and> requests (snd (parse_text talk_site scenario_world talk_body))
       = [ParseQuery ''B|Talk:X|A|B'']"
proof -
  let ?r = "parse_text talk_site scenario_world talk_body"
  have f: "fst ?r = Inr [(''A'', 1), (''B'', 1)]"
    by code_simp
  then have r: "?r = (Inr [(''A'', 1), (''B'', 1)], snd ?r)"
    by (simp add: prod_eq_iff)
  have b: "map (\<lambda>b. ParseQuery (joined b))
             (iterate (split_param_list (findall_linkP talk_body))) = [ParseQuery ''B|Talk:X|A|B'']"
    by code_simp
  have e: "requests scenario_world = []"
    by (simp add: scenario_world_def)
  from parse_text_resolved [OF r] f b e show ?thesis
    by simp
qed

text \<open>
  The raw candidates of the example body are \<open>B\<close>, \<open>Talk:X\<close>, \<open>A\<close>, \<open>B\<close>; \<open>parse_text\<close>
  returns \<open>A\<close> and \<open>B\<close>: the talk page is filtered out, the duplicate is gone, and here
  the order is the one of the service's answer.
\<close>

theorem parse_text_raw_counterexample:
  "findall_linkP talk_body = [''B'', ''Talk:X'', ''A'', ''B'']
   \<and> fst (parse_text talk_site scenario_world talk_body) = Inr [(''A'', 1), (''B'', 1)]"
  by code_simp

section \<open>Properties of the crawl\<close>

subsection \<open>The service calls leave the edge stream and the files alone\<close>

lemma parse_loop_world:
  "net_file (snd (parse_loop site links w batches)) = net_file w
   \<and> files (snd (parse_loop site links w batches)) = files w"
  by (induction batches arbitrary: links w)
     (auto simp: api_query_def split: sum.splits option.splits)

lemma check_loop_world:
  "net_file (snd (check_loop site rd ld w batches)) = net_file w
   \<and> files (snd (check_loop site rd ld w batches)) = files w"
proof (induction batches arbitrary: rd ld w)
  case Nil
  show ?case by (cases ld) simp
next
  case (Cons b bs)
  obtain links d where ld: "ld = (links, d)" by (cases ld)
  show ?case
  proof (cases "site (requests w) (RedirectsQuery (joined b))")
    case (Inl e)
    then show ?thesis by (simp add: ld api_query_def)
  next
    case (Inr result)
    then show ?thesis
      using Cons.IH by (cases "pages result") (simp_all add: ld api_query_def Let_def)
  qed
qed

lemma get_outlinks_from_api_world:
  "net_file (snd (get_outlinks_from_api site w t)) = net_file w
   \<and> files (snd (get_outlinks_from_api site w t)) = files w"
proof -
  have "\<And>w1 content. net_file (snd (parse_text site w1 content)) = net_file w1
      \<and> files (snd (parse_text site w1 content)) = files w1"
    by (simp add: parse_text_def parse_loop_world)
  then have p: "\<And>w1 content r w2. parse_text site w1 content = (r, w2)
      \<Longrightarrow> net_file w2 = net_file w1 \<and> files w2 = files w1"
    by (metis snd_conv)
  show ?thesis
    by (auto simp: get_outlinks_from_api_def api_query_def
             split: sum.splits option.splits list.splits prod.splits dest: p)
qed

lemma check_redirects_world:
  "net_file (snd (check_redirects site w xs)) = net_file w
   \<and> files (snd (check_redirects site w xs)) = files w"
  by (simp add: check_redirects_def check_loop_world)

lemma get_outlinks_world:
  "net_file (snd (get_outlinks site w t)) = net_file w
   \<and> files (snd (get_outlinks site w t)) = files w"
proof (cases "read_cache w t \<noteq> []")
  case True
  then show ?thesis by (simp add: get_outlinks_def)
next
  case False
  obtain r1 w1 where a: "get_outlinks_from_api site w t = (r1, w1)"
    by (cases "get_outlinks_from_api site w t")
  with get_outlinks_from_api_world [of site w t]
  have w1: "net_file w1 = net_file w \<and> files w1 = files w" by simp
  show ?thesis
  proof (cases r1)
    case (Inl e)
    with False a w1 show ?thesis by (simp add: get_outlinks_def)
  next
    case (Inr po)
    obtain p outlinks where po: "po = (p, outlinks)" by (cases po)
    obtain r2 w2 where c: "check_redirects site w1 outlinks = (r2, w2)"
      by (cases "check_redirects site w1 outlinks")
    with check_redirects_world [of site w1 outlinks] w1
    have "net_file w2 = net_file w \<and> files w2 = files w" by simp
    with False a Inr po c show ?thesis
      by (cases r2) (auto simp: get_outlinks_def)
  qed
qed


lemma append_file_net: "net_file (append_file w path s) = net_file w"
  by (simp add: append_file_def)

subsection \<open>The edges written by the two passes\<close>

lemma seed_targets_edges:
  "\<exists>es. net_file (snd (seed_targets seeds sd new n fs w targets)) = net_file w @ es
     \<and> (\<forall>e \<in> set es. fst e \<noteq> snd e)"
proof (induction targets arbitrary: fs w)
  case Nil
  show ?case by simp
next
  case (Cons target rest)
  show ?case
  proof (cases "sd \<noteq> target")
    case False
    with Cons.IH [of fs w] show ?thesis by simp
  next
    case True
    let ?w1 = "w\<lparr>net_file := net_file w @ [(sd, target)]\<rparr>"
    let ?w2 = "if new then append_file ?w1 (link_path (cache_name sd)) (target @ [LF]) else ?w1"
    let ?fs2 = "seed_target (seed_source fs seeds sd target n) seeds target"
    from Cons.IH [of ?fs2 ?w2] obtain es where
      "net_file (snd (seed_targets seeds sd new n ?fs2 ?w2 rest)) = net_file ?w2 @ es"
      "\<forall>e \<in> set es. fst e \<noteq> snd e"
      by blast
    with True have
      "net_file (snd (seed_targets seeds sd new n fs w (target # rest)))
         = net_file w @ ((sd, target) # es)"
      "\<forall>e \<in> set ((sd, target) # es). fst e \<noteq> snd e"
      by (simp_all add: Let_def append_file_net)
    then show ?thesis by blast
  qed
qed

lemma seed_pass_edges:
  "\<exists>es. net_file (snd (seed_pass site seeds acc w sds)) = net_file w @ es
     \<and> (\<forall>e \<in> set es. fst e \<noteq> snd e)"
proof (induction sds arbitrary: acc w)
  case Nil
  show ?case by (cases acc) simp
next
  case (Cons sd rest)
  obtain lts fs where acc: "acc = (lts, fs)" by (cases acc)
  obtain r w1 where g: "get_outlinks site w sd = (r, w1)" by (cases "get_outlinks site w sd")
  with get_outlinks_world [of site w sd] have w1: "net_file w1 = net_file w" by simp
  show ?case
  proof (cases r)
    case (Inl e)
    with g acc w1 show ?thesis by simp
  next
    case (Inr no)
    obtain new outs where no: "no = (new, outs)" by (cases no)
    let ?n = "int (length outs)"
    let ?w2 = "if new then open_append w1 (link_path (cache_name sd)) else w1"
    let ?fs1 = "if new then (case fs sd of Some r \<Rightarrow> fs(sd \<mapsto> r\<lparr>out_WP := ?n\<rparr>) | None \<Rightarrow> fs) else fs"
    obtain fs2 w3 where st: "seed_targets seeds sd new ?n ?fs1 ?w2 outs = (fs2, w3)"
      by (cases "seed_targets seeds sd new ?n ?fs1 ?w2 outs")
    have w2: "net_file ?w2 = net_file w" by (simp add: open_append_def append_file_net w1)
    from seed_targets_edges [of seeds sd new ?n ?fs1 ?w2 outs] st w2 obtain es1 where
      es1: "net_file w3 = net_file w @ es1" "\<forall>e \<in> set es1. fst e \<noteq> snd e"
      by auto
    from Cons.IH [of "(lts @ [outs], fs2)" w3] obtain es2 where
      es2: "net_file (snd (seed_pass site seeds (lts @ [outs], fs2) w3 rest)) = net_file w3 @ es2"
        "\<forall>e \<in> set es2. fst e \<noteq> snd e"
      by blast
    have "seed_pass site seeds acc w (sd # rest) = seed_pass site seeds (lts @ [outs], fs2) w3 rest"
      using g Inr no st by (simp add: acc Let_def)
    with es1 es2 have
      "net_file (snd (seed_pass site seeds acc w (sd # rest))) = net_file w @ (es1 @ es2)"
      "\<forall>e \<in> set (es1 @ es2). fst e \<noteq> snd e"
      by auto
    then show ?thesis by blast
  qed
qed

lemma outlink_edge_dom:
  "outlink_edge b t target fs = Inr fs' \<Longrightarrow> dom fs' = dom fs \<and> target \<in> dom fs"
  by (auto simp: outlink_edge_def Let_def split: option.splits if_splits)

lemma outlink_targets_edge:
  assumes "(target \<in> set seeds \<or> target \<in> set fr) \<and> target \<noteq> t"
  shows "outlink_targets seeds fr t new fs w (target # rest) =
    (case outlink_edge (target \<in> set seeds) t target fs of
       Inl e \<Rightarrow>
         (Inl e, (if new then append_file w (link_path (cache_name t)) (target @ [LF]) else w)
                   \<lparr>net_file := net_file w @ [(t, target)]\<rparr>)
     | Inr fs1 \<Rightarrow>
         outlink_targets seeds fr t new fs1
           ((if new then append_file w (link_path (cache_name t)) (target @ [LF]) else w)
              \<lparr>net_file := net_file w @ [(t, target)]\<rparr>) rest)"
  using assms
  by (cases "target \<in> set seeds") (simp_all add: Let_def append_file_net split: sum.split)

lemma outlink_targets_skip:
  assumes "\<not> ((target \<in> set seeds \<or> target \<in> set fr) \<and> target \<noteq> t)"
  shows "outlink_targets seeds fr t new fs w (target # rest) =
    outlink_targets seeds fr t new fs
      (if new then append_file w (link_path (cache_name t)) (target @ [LF]) else w) rest"
  using assms by (auto simp: Let_def)

lemma outlink_targets_edges:
  "outlink_targets seeds fr t new fs w targets = (r, w') \<Longrightarrow>
   \<exists>es. net_file w' = net_file w @ es \<and> closed_edges seeds fr es
     \<and> (\<forall>fs'. r = Inr fs' \<longrightarrow> dom fs' = dom fs \<and> (\<forall>e \<in> set es. snd e \<in> dom fs))"
proof (induction targets arbitrary: fs w)
  case Nil
  then show ?case by (auto simp: closed_edges_def)
next
  case (Cons target rest)
  let ?w1 = "if new then append_file w (link_path (cache_name t)) (target @ [LF]) else w"
  let ?w2 = "?w1\<lparr>net_file := net_file w @ [(t, target)]\<rparr>"
  have w1: "net_file ?w1 = net_file w" by (simp add: append_file_net)
  show ?case
  proof (cases "(target \<in> set seeds \<or> target \<in> set fr) \<and> target \<noteq> t")
    case False
    note rec = Cons.prems [unfolded outlink_targets_skip [OF False]]
    from Cons.IH [OF rec] w1 show ?thesis by simp
  next
    case True
    define b where "b = (target \<in> set seeds)"
    note step = Cons.prems [unfolded outlink_targets_edge [OF True], folded b_def]
    have ce: "closed_edges seeds fr [(t, target)]"
      using True by (auto simp: closed_edges_def)
    show ?thesis
    proof (cases "outlink_edge b t target fs")
      case (Inl e)
      with step have "r = Inl e" "w' = ?w2"
        by simp_all
      then have "net_file w' = net_file w @ [(t, target)]" by simp
      with ce \<open>r = Inl e\<close> show ?thesis by blast
    next
      case (Inr fs1)
      with step have "outlink_targets seeds fr t new fs1 ?w2 rest = (r, w')"
        by simp
      from Cons.IH [OF this] obtain es where
        es: "net_file w' = net_file ?w2 @ es" "closed_edges seeds fr es"
          "\<forall>fs'. r = Inr fs' \<longrightarrow> dom fs' = dom fs1 \<and> (\<forall>e \<in> set es. snd e \<in> dom fs1)"
        by blast
      from outlink_edge_dom [OF Inr] have d: "dom fs1 = dom fs" "target \<in> dom fs" by simp_all
      have "net_file w' = net_file w @ ((t, target) # es)"
        using es(1) by simp
      moreover have "closed_edges seeds fr ((t, target) # es)"
        using ce es(2) by (simp add: closed_edges_def)
      moreover have "\<forall>fs'. r = Inr fs' \<longrightarrow> dom fs' = dom fs
          \<and> (\<forall>e \<in> set ((t, target) # es). snd e \<in> dom fs)"
        using es(3) d by simp
      ultimately show ?thesis by blast
    qed
  qed
qed


lemma outlink_pass_step:
  assumes "get_outlinks site w t = (Inr (new, outs), w1)" and "\<not> (new \<and> fs t = None)"
  shows "outlink_pass site seeds fr fs w (t # rest) =
    (case outlink_targets seeds fr t new
            (if new then fs(t \<mapsto> (the (fs t))\<lparr>out_WP := int (length outs)\<rparr>) else fs)
            (if new then open_write w1 (link_path (cache_name t)) else w1) outs of
       (Inl e, w3) \<Rightarrow> (Inl e, w3)
     | (Inr fs2, w3) \<Rightarrow> outlink_pass site seeds fr fs2 w3 rest)"
  using assms by (cases new; cases "fs t") (simp_all add: Let_def)

lemma outlink_pass_edges:
  "outlink_pass site seeds fr fs w titles = (r, w') \<Longrightarrow>
   \<exists>es. net_file w' = net_file w @ es \<and> closed_edges seeds fr es
     \<and> (\<forall>fs'. r = Inr fs' \<longrightarrow> dom fs' = dom fs \<and> (\<forall>e \<in> set es. snd e \<in> dom fs))"
proof (induction titles arbitrary: fs w)
  case Nil
  then show ?case by (auto simp: closed_edges_def)
next
  case (Cons t rest)
  obtain r0 w1 where g: "get_outlinks site w t = (r0, w1)" by (cases "get_outlinks site w t")
  with get_outlinks_world [of site w t] have w1: "net_file w1 = net_file w" by simp
  have none: "closed_edges seeds fr []" by (simp add: closed_edges_def)
  show ?case
  proof (cases r0)
    case (Inl e)
    with Cons.prems g have "r = Inl e" "w' = w1" by simp_all
    with w1 none show ?thesis by auto
  next
    case (Inr no)
    obtain new outs where no: "no = (new, outs)" by (cases no)
    let ?w2 = "if new then open_write w1 (link_path (cache_name t)) else w1"
    have w2: "net_file ?w2 = net_file w" by (simp add: open_write_def w1)
    show ?thesis
    proof (cases "new \<and> fs t = None")
      case True
      with Cons.prems g Inr no have "r = Inl KeyError" "w' = ?w2" by (simp_all add: Let_def)
      with w2 none show ?thesis by auto
    next
      case False
      define fs1 where "fs1 = (if new then fs(t \<mapsto> (the (fs t))\<lparr>out_WP := int (length outs)\<rparr>) else fs)"
      note step = Cons.prems
        [unfolded outlink_pass_step [of site w t new outs w1 fs, OF g [unfolded Inr no] False],
         folded fs1_def]
      have d1: "dom fs1 = dom fs" using False by (auto simp: fs1_def)
      obtain r3 w3 where ot: "outlink_targets seeds fr t new fs1 ?w2 outs = (r3, w3)"
        by (cases "outlink_targets seeds fr t new fs1 ?w2 outs")
      from outlink_targets_edges [OF ot] w2 obtain es1 where
        es1: "net_file w3 = net_file w @ es1" "closed_edges seeds fr es1"
          "\<forall>fs'. r3 = Inr fs' \<longrightarrow> dom fs' = dom fs1 \<and> (\<forall>e \<in> set es1. snd e \<in> dom fs1)"
        by auto
      show ?thesis
      proof (cases r3)
        case (Inl e)
        with step ot have "r = Inl e" "w' = w3"
          by simp_all
        with es1 show ?thesis by auto
      next
        case r3: (Inr fs2)
        with step ot have "outlink_pass site seeds fr fs2 w3 rest = (r, w')"
          by simp
        from Cons.IH [OF this] obtain es2 where
          es2: "net_file w' = net_file w3 @ es2" "closed_edges seeds fr es2"
            "\<forall>fs'. r = Inr fs' \<longrightarrow> dom fs' = dom fs2 \<and> (\<forall>e \<in> set es2. snd e \<in> dom fs2)"
          by blast
        from es1(3) r3 d1 have d2: "dom fs2 = dom fs" "\<forall>e \<in> set es1. snd e \<in> dom fs" by simp_all
        have "net_file w' = net_file w @ (es1 @ es2)" using es1(1) es2(1) by simp
        moreover have "closed_edges seeds fr (es1 @ es2)"
          using es1(2) es2(2) by (auto simp: closed_edges_def)
        moreover have "\<forall>fs'. r = Inr fs' \<longrightarrow> dom fs' = dom fs
            \<and> (\<forall>e \<in> set (es1 @ es2). snd e \<in> dom fs)"
          using es2(3) d2 by auto
        ultimately show ?thesis by blast
      qed
    qed
  qed
qed

lemma scenario_load: "load_seed scenario_world ''seeds.txt'' = Inr [(''A'', 1)]"
  by code_simp

lemma scenario_seed_pass_ok:
  "scenario_seed_pass =
     (Inr (fst (projr (fst scenario_seed_pass)), snd (projr (fst scenario_seed_pass))),
      snd scenario_seed_pass)"
proof -
  have "\<not> isl (fst scenario_seed_pass)" by code_simp
  then show ?thesis by (simp add: prod_eq_iff)
qed

lemma scenario_run_ok: "scenario_run = (Inr (projr (fst scenario_run)), snd scenario_run)"
proof -
  have "\<not> isl (fst scenario_run)" by code_simp
  then show ?thesis by (simp add: prod_eq_iff)
qed

lemma scenario_edges:
  "net_file (snd scenario_run) = [(''A'', ''B''), (''A'', ''C''), (''B'', ''A''), (''C'', ''B'')]"
  by code_simp

text \<open>
  C3 (no self-edges).  When the run starts with an empty edge stream, no edge of the
  stream, whether written in the pass over the seeds or in the pass over their outlinks,
  and whether the run ends with the export or with an error, has its source as its
  target.
\<close>

theorem no_self_edges:
  "net_file w = [] \<Longrightarrow>
     \<forall>e \<in> set (net_file (snd (extract_network set_order site w seed_file))). fst e \<noteq> snd e"
proof (cases "load_seed w seed_file")
  case (Inl e)
  assume "net_file w = []"
  with Inl show ?thesis by (simp add: extract_network_def)
next
  case (Inr seeds_list)
  assume empty: "net_file w = []"
  let ?seeds = "map fst seeds_list"
  obtain r1 w1 where sp: "seed_pass site ?seeds ([], Map.empty) w (set_order ?seeds) = (r1, w1)"
    by (cases "seed_pass site ?seeds ([], Map.empty) w (set_order ?seeds)")
  from seed_pass_edges [of site ?seeds "([], Map.empty)" w "set_order ?seeds"] sp empty
  have e1: "\<forall>e \<in> set (net_file w1). fst e \<noteq> snd e" by auto
  show ?thesis
  proof (cases r1)
    case (Inl e)
    with Inr sp e1 show ?thesis by (simp add: extract_network_def)
  next
    case r1: (Inr lf)
    obtain lts fs where lf: "lf = (lts, fs)" by (cases lf)
    let ?fr = "frontier_of set_order ?seeds lts"
    obtain r2 w2 where op: "outlink_pass site ?seeds ?fr fs w1 ?fr = (r2, w2)"
      by (cases "outlink_pass site ?seeds ?fr fs w1 ?fr")
    from outlink_pass_edges [OF op] e1
    have "\<forall>e \<in> set (net_file w2). fst e \<noteq> snd e"
      by (fastforce simp: closed_edges_def)
    with Inr sp r1 lf op show ?thesis by (simp add: extract_network_def Let_def)
  qed
qed

theorem no_self_edges_witness:
  "net_file scenario_world = []
   \<and> net_file (snd (extract_network remdups scenario_site scenario_world ''seeds.txt''))
       = [(''A'', ''B''), (''A'', ''C''), (''B'', ''A''), (''C'', ''B'')]
   \<and> list_all (\<lambda>e. fst e \<noteq> snd e)
        (net_file (snd (extract_network remdups scenario_site scenario_world ''seeds.txt'')))"
proof -
  have e: "net_file scenario_world = []" by (simp add: scenario_world_def)
  from no_self_edges [OF e, of remdups scenario_site "''seeds.txt''"] e
    scenario_edges [unfolded scenario_run_def]
  show ?thesis by (simp add: list_all_iff)
qed

text \<open>
  C2 (frontier closure).  Take a run whose pass over the seeds ends without error, with
  the outlink lists \<open>links_to_seedlinks\<close> and the state \<open>w1\<close>.  Every edge written after
  that, in the pass over the outlinks, ends in a seed or in the frontier: the titles of
  the outlink lists that are no seeds.  The order in which a set is iterated only has to
  visit the elements of the set.
\<close>

theorem frontier_closure:
  assumes "load_seed w seed_file = Inr seeds_list"
    and "seed_pass site (map fst seeds_list) ([], Map.empty) w (set_order (map fst seeds_list))
           = (Inr (links_to_seedlinks, first_step), w1)"
    and "\<forall>xs. set (set_order xs) = set xs"
  shows "\<exists>es. net_file (snd (extract_network set_order site w seed_file)) = net_file w1 @ es
           \<and> (\<forall>e \<in> set es. snd e \<in> set (map fst seeds_list)
                 \<or> snd e \<in> set (concat links_to_seedlinks) - set (map fst seeds_list))"
proof -
  let ?seeds = "map fst seeds_list"
  let ?fr = "frontier_of set_order ?seeds links_to_seedlinks"
  obtain r2 w2 where op: "outlink_pass site ?seeds ?fr first_step w1 ?fr = (r2, w2)"
    by (cases "outlink_pass site ?seeds ?fr first_step w1 ?fr")
  have fr: "set ?fr = set (concat links_to_seedlinks) - set ?seeds"
    using assms(3) by (auto simp: frontier_of_def)
  from outlink_pass_edges [OF op] obtain es where
    "net_file w2 = net_file w1 @ es" "closed_edges ?seeds ?fr es" by blast
  then have "net_file w2 = net_file w1 @ es
      \<and> (\<forall>e \<in> set es. snd e \<in> set ?seeds \<or> snd e \<in> set (concat links_to_seedlinks) - set ?seeds)"
    unfolding closed_edges_def fr by blast
  moreover have "snd (extract_network set_order site w seed_file) = w2"
    using assms(1,2) op by (simp add: extract_network_def Let_def)
  ultimately show ?thesis by auto
qed


theorem frontier_closure_witness:
  "fst (projr (fst scenario_seed_pass)) = [[''B'', ''C'']]
   \<and> net_file (snd scenario_seed_pass) = [(''A'', ''B''), (''A'', ''C'')]
   \<and> (\<exists>es. net_file (snd scenario_run) = net_file (snd scenario_seed_pass) @ es
          \<and> list_all (\<lambda>e. snd e \<in> set [''A''] \<or> snd e \<in> set [''B'', ''C''] - set [''A'']) es)"
proof -
  have l: "fst (projr (fst scenario_seed_pass)) = [[''B'', ''C'']]" by code_simp
  have n: "net_file (snd scenario_seed_pass) = [(''A'', ''B''), (''A'', ''C'')]" by code_simp
  have sp: "seed_pass scenario_site (map fst [(''A'', 1 :: int)]) ([], Map.empty) scenario_world
              (remdups (map fst [(''A'', 1 :: int)]))
            = (Inr (fst (projr (fst scenario_seed_pass)), snd (projr (fst scenario_seed_pass))),
               snd scenario_seed_pass)"
    using scenario_seed_pass_ok by (simp add: scenario_seed_pass_def)
  have o: "\<forall>xs :: string list. set (remdups xs) = set xs" by simp
  from frontier_closure [OF scenario_load sp o] l n show ?thesis
    by (simp add: scenario_run_def list_all_iff)
qed

subsection \<open>Degrees\<close>

lemma in_count_snoc: "in_count (es @ [(s, t)]) x = in_count es x + (if x = t then 1 else 0)"
  by (simp add: in_count_def)

lemma out_count_snoc: "out_count (es @ [(s, t)]) x = out_count es x + (if x = s then 1 else 0)"
  by (simp add: out_count_def)

lemma consistent_seed_source:
  assumes "consistent fs es"
  shows "case seed_source fs seeds sd target n x of
           None \<Rightarrow> in_count es x = 0 \<and> out_count es x = 0
         | Some r \<Rightarrow> in_degree r = in_count es x
                    \<and> out_degree r = out_count es x + (if x = sd then 1 else 0)"
  using assms [unfolded consistent_def, THEN spec, of x]
  by (auto simp: seed_source_def split: option.splits)

lemma seed_source_sd: "seed_source fs seeds sd target n sd \<noteq> None"
  by (simp add: seed_source_def split: option.splits)

lemma consistent_seed_edge:
  assumes "consistent fs es" and "sd \<noteq> target"
  shows "consistent (seed_target (seed_source fs seeds sd target n) seeds target)
           (es @ [(sd, target)])"
  unfolding consistent_def
proof
  fix x
  let ?fs1 = "seed_source fs seeds sd target n"
  note a = consistent_seed_source
    [OF assms(1), where seeds = seeds and sd = sd and target = target and n = n and x = x]
  note b = consistent_seed_source
    [OF assms(1), where seeds = seeds and sd = sd and target = target and n = n and x = target]
  show "case seed_target ?fs1 seeds target x of
          None \<Rightarrow> in_count (es @ [(sd, target)]) x = 0 \<and> out_count (es @ [(sd, target)]) x = 0
        | Some r \<Rightarrow> in_degree r = in_count (es @ [(sd, target)]) x
                   \<and> out_degree r = out_count (es @ [(sd, target)]) x"
  proof (cases "x = target")
    case True
    with b assms(2) show ?thesis
      by (auto simp: seed_target_def in_count_snoc out_count_snoc split: option.splits)
  next
    case False
    with a seed_source_sd [of fs seeds sd target n] show ?thesis
      by (auto simp: seed_target_def in_count_snoc out_count_snoc split: option.splits)
  qed
qed

lemma consistent_out_WP:
  "consistent fs es \<Longrightarrow> fs t = Some r \<Longrightarrow> consistent (fs(t \<mapsto> r\<lparr>out_WP := n\<rparr>)) es"
  unfolding consistent_def
  by (auto split: option.splits)


lemma seed_targets_consistent:
  "consistent fs (net_file w) \<Longrightarrow>
   seed_targets seeds sd new n fs w targets = (fs', w') \<Longrightarrow> consistent fs' (net_file w')"
proof (induction targets arbitrary: fs w)
  case Nil
  then show ?case by simp
next
  case (Cons target rest)
  show ?case
  proof (cases "sd \<noteq> target")
    case False
    with Cons.prems Cons.IH [of fs w] show ?thesis by simp
  next
    case True
    let ?w1 = "w\<lparr>net_file := net_file w @ [(sd, target)]\<rparr>"
    let ?w2 = "if new then append_file ?w1 (link_path (cache_name sd)) (target @ [LF]) else ?w1"
    let ?fs2 = "seed_target (seed_source fs seeds sd target n) seeds target"
    have "consistent ?fs2 (net_file ?w2)"
      using consistent_seed_edge [OF Cons.prems(1) True] by (simp add: append_file_net)
    moreover from Cons.prems(2) True have "seed_targets seeds sd new n ?fs2 ?w2 rest = (fs', w')"
      by (simp add: Let_def)
    ultimately show ?thesis by (rule Cons.IH)
  qed
qed

lemma seed_pass_consistent:
  "consistent fs (net_file w) \<Longrightarrow>
   seed_pass site seeds (lts, fs) w sds = (Inr (lts', fs'), w') \<Longrightarrow> consistent fs' (net_file w')"
proof (induction sds arbitrary: lts fs w)
  case Nil
  then show ?case by simp
next
  case (Cons sd rest)
  obtain r w1 where g: "get_outlinks site w sd = (r, w1)" by (cases "get_outlinks site w sd")
  with get_outlinks_world [of site w sd] have w1: "net_file w1 = net_file w" by simp
  from Cons.prems(2) g obtain new outs where r: "r = Inr (new, outs)"
    by (cases r) auto
  let ?n = "int (length outs)"
  let ?w2 = "if new then open_append w1 (link_path (cache_name sd)) else w1"
  let ?fs1 = "if new then (case fs sd of Some r \<Rightarrow> fs(sd \<mapsto> r\<lparr>out_WP := ?n\<rparr>) | None \<Rightarrow> fs) else fs"
  obtain fs2 w3 where st: "seed_targets seeds sd new ?n ?fs1 ?w2 outs = (fs2, w3)"
    by (cases "seed_targets seeds sd new ?n ?fs1 ?w2 outs")
  have w2: "net_file ?w2 = net_file w"
    by (simp add: open_append_def append_file_net w1)
  have "consistent ?fs1 (net_file w)"
    using Cons.prems(1) by (auto simp: consistent_out_WP split: option.splits)
  then have "consistent ?fs1 (net_file ?w2)"
    unfolding w2 .
  from seed_targets_consistent [OF this st] have c3: "consistent fs2 (net_file w3)" .
  from Cons.prems(2) g r st
  have "seed_pass site seeds (lts @ [outs], fs2) w3 rest = (Inr (lts', fs'), w')"
    by (simp add: Let_def)
  with c3 show ?case by (rule Cons.IH)
qed

lemma consistent_outlink_edge:
  assumes "consistent fs es" and "t \<noteq> target" and "outlink_edge b t target fs = Inr fs'"
  shows "consistent fs' (es @ [(t, target)])"
  unfolding consistent_def
proof
  fix x
  from assms(3) obtain r r' where r: "fs t = Some r" "fs target = Some r'" and
    fs': "fs' = (fs(t \<mapsto> r\<lparr>links_to_seed := (if b then links_to_seed r + 1 else links_to_seed r),
                          out_degree := out_degree r + 1\<rparr>))
                (target \<mapsto> r'\<lparr>in_degree := in_degree r' + 1\<rparr>)"
    using assms(2) by (auto simp: outlink_edge_def Let_def split: option.splits)
  note a = assms(1) [unfolded consistent_def, THEN spec, of x]
  show "case fs' x of
          None \<Rightarrow> in_count (es @ [(t, target)]) x = 0 \<and> out_count (es @ [(t, target)]) x = 0
        | Some r \<Rightarrow> in_degree r = in_count (es @ [(t, target)]) x
                   \<and> out_degree r = out_count (es @ [(t, target)]) x"
    using a r assms(2)
    by (auto simp: fs' in_count_snoc out_count_snoc split: option.splits)
qed

lemma outlink_targets_consistent:
  "consistent fs (net_file w) \<Longrightarrow>
   outlink_targets seeds fr t new fs w targets = (Inr fs', w') \<Longrightarrow> consistent fs' (net_file w')"
proof (induction targets arbitrary: fs w)
  case Nil
  then show ?case by simp
next
  case (Cons target rest)
  let ?w1 = "if new then append_file w (link_path (cache_name t)) (target @ [LF]) else w"
  let ?w2 = "?w1\<lparr>net_file := net_file w @ [(t, target)]\<rparr>"
  show ?case
  proof (cases "(target \<in> set seeds \<or> target \<in> set fr) \<and> target \<noteq> t")
    case False
    note rec = Cons.prems(2) [unfolded outlink_targets_skip [OF False]]
    have "consistent fs (net_file ?w1)" using Cons.prems(1) by (simp add: append_file_net)
    from this rec show ?thesis by (rule Cons.IH)
  next
    case True
    define b where "b = (target \<in> set seeds)"
    note step = Cons.prems(2) [unfolded outlink_targets_edge [OF True], folded b_def]
    then obtain fs1 where e: "outlink_edge b t target fs = Inr fs1"
      by (cases "outlink_edge b t target fs") auto
    with step have rec: "outlink_targets seeds fr t new fs1 ?w2 rest = (Inr fs', w')" by simp
    from True have "t \<noteq> target" by auto
    from consistent_outlink_edge [OF Cons.prems(1) this e]
    have "consistent fs1 (net_file ?w2)" by simp
    from this rec show ?thesis by (rule Cons.IH)
  qed
qed

lemma outlink_pass_consistent:
  "consistent fs (net_file w) \<Longrightarrow>
   outlink_pass site seeds fr fs w titles = (Inr fs', w') \<Longrightarrow> consistent fs' (net_file w')"
proof (induction titles arbitrary: fs w)
  case Nil
  then show ?case by simp
next
  case (Cons t rest)
  obtain r0 w1 where g: "get_outlinks site w t = (r0, w1)" by (cases "get_outlinks site w t")
  with get_outlinks_world [of site w t] have w1: "net_file w1 = net_file w" by simp
  from Cons.prems(2) g obtain new outs where r0: "r0 = Inr (new, outs)"
    by (cases r0) auto
  let ?w2 = "if new then open_write w1 (link_path (cache_name t)) else w1"
  have w2: "net_file ?w2 = net_file w" by (simp add: open_write_def w1)
  have ok: "\<not> (new \<and> fs t = None)"
    using Cons.prems(2) g r0 by (auto simp: Let_def split: option.splits)
  define fs1 where "fs1 = (if new then fs(t \<mapsto> (the (fs t))\<lparr>out_WP := int (length outs)\<rparr>) else fs)"
  note step = Cons.prems(2)
    [unfolded outlink_pass_step [of site w t new outs w1 fs, OF g [unfolded r0] ok],
     folded fs1_def]
  have "consistent fs1 (net_file ?w2)"
    using Cons.prems(1) ok by (auto simp: fs1_def w2 intro: consistent_out_WP)
  moreover obtain r3 w3 where ot: "outlink_targets seeds fr t new fs1 ?w2 outs = (r3, w3)"
    by (cases "outlink_targets seeds fr t new fs1 ?w2 outs")
  moreover from step ot obtain fs2 where r3: "r3 = Inr fs2" by (cases r3) auto
  ultimately have "consistent fs2 (net_file w3)"
    using outlink_targets_consistent by simp
  moreover from step ot r3 have "outlink_pass site seeds fr fs2 w3 rest = (Inr fs', w')" by simp
  ultimately show ?case by (rule Cons.IH)
qed

text \<open>
  C1 (degree consistency).  When a run that started with an empty edge stream reaches the
  export, every row of the exported table holds as \<open>in_degree\<close> the number of edges of
  the stream that end in its title, and as \<open>out_degree\<close> the number of edges that start
  from it.
\<close>

theorem degree_consistency:
  assumes "net_file w = []"
    and "extract_network set_order site w seed_file = (Inr first_step, w')"
    and "first_step t = Some r"
  shows "in_degree r = int (length (filter (\<lambda>e. snd e = t) (net_file w')))
       \<and> out_degree r = int (length (filter (\<lambda>e. fst e = t) (net_file w')))"
proof -
  from assms(2) obtain seeds_list where ls: "load_seed w seed_file = Inr seeds_list"
    by (cases "load_seed w seed_file") (auto simp: extract_network_def)
  let ?seeds = "map fst seeds_list"
  obtain r1 w1 where sp: "seed_pass site ?seeds ([], Map.empty) w (set_order ?seeds) = (r1, w1)"
    by (cases "seed_pass site ?seeds ([], Map.empty) w (set_order ?seeds)")
  from assms(2) ls sp obtain lts fs where r1: "r1 = Inr (lts, fs)"
    by (cases r1) (auto simp: extract_network_def Let_def)
  let ?fr = "frontier_of set_order ?seeds lts"
  from assms(2) ls sp r1 have op: "outlink_pass site ?seeds ?fr fs w1 ?fr = (Inr first_step, w')"
    by (simp add: extract_network_def Let_def)
  have "consistent Map.empty (net_file w)"
    by (simp add: consistent_def assms(1) in_count_def out_count_def)
  from seed_pass_consistent [OF this sp [unfolded r1]] have "consistent fs (net_file w1)" .
  from outlink_pass_consistent [OF this op] have "consistent first_step (net_file w')" .
  from this [unfolded consistent_def, THEN spec, of t] assms(3) show ?thesis
    by (simp add: in_count_def out_count_def)
qed


theorem degree_consistency_witness:
  "net_file scenario_world = []
   \<and> map (\<lambda>t. in_degree (the (projr (fst scenario_run) t))) [''A'', ''B'', ''C''] = [1, 2, 1]
   \<and> map (\<lambda>t. out_degree (the (projr (fst scenario_run) t))) [''A'', ''B'', ''C''] = [2, 1, 1]
   \<and> in_degree (the (projr (fst scenario_run) ''B''))
       = int (length (filter (\<lambda>e. snd e = ''B'') (net_file (snd scenario_run))))
   \<and> out_degree (the (projr (fst scenario_run) ''B''))
       = int (length (filter (\<lambda>e. fst e = ''B'') (net_file (snd scenario_run))))"
proof -
  have e: "net_file scenario_world = []" by (simp add: scenario_world_def)
  have i: "map (\<lambda>t. in_degree (the (projr (fst scenario_run) t))) [''A'', ''B'', ''C''] = [1, 2, 1]"
    by code_simp
  have u: "map (\<lambda>t. out_degree (the (projr (fst scenario_run) t))) [''A'', ''B'', ''C''] = [2, 1, 1]"
    by code_simp
  have "projr (fst scenario_run) ''B'' \<noteq> None" by code_simp
  then have s: "projr (fst scenario_run) ''B'' = Some (the (projr (fst scenario_run) ''B''))"
    by simp
  from degree_consistency [OF e scenario_run_ok [unfolded scenario_run_def]
      s [unfolded scenario_run_def]] e i u
  show ?thesis by (simp add: scenario_run_def)
qed


subsection \<open>The unguarded lookups of the second pass\<close>

lemma level1_targets_have_records:
  assumes "load_seed w seed_file = Inr seeds_list"
    and "seed_pass site (map fst seeds_list) ([], Map.empty) w (set_order (map fst seeds_list))
           = (Inr (links_to_seedlinks, first_step), w1)"
    and "extract_network set_order site w seed_file = (Inr final, w')"
  shows "\<forall>e \<in> set (drop (length (net_file w1)) (net_file w')). snd e \<in> dom first_step"
proof -
  let ?seeds = "map fst seeds_list"
  let ?fr = "frontier_of set_order ?seeds links_to_seedlinks"
  from assms have op: "outlink_pass site ?seeds ?fr first_step w1 ?fr = (Inr final, w')"
    by (simp add: extract_network_def Let_def)
  from outlink_pass_edges [OF op] obtain es where
    "net_file w' = net_file w1 @ es" "\<forall>e \<in> set es. snd e \<in> dom first_step"
    by blast
  then show ?thesis by simp
qed

text \<open>
  C10 (level-1 degree updates assume an existing record).  A run reaches the export only
  if every edge written in the pass over the outlinks ends in a title that has a row
  after the pass over the seeds: the lookup of the target's row is unguarded, and the
  second pass adds no row.  In the run with the seeds \<open>P\<close> and \<open>Q\<close> the seed \<open>Q\<close> has no
  row after the first pass (it has no outlinks and \<open>P\<close> does not link to it); the second
  pass writes the edge from \<open>R\<close> to \<open>Q\<close>, the lookup raises \<open>KeyError\<close> and the run ends
  without a table.
\<close>

theorem level1_unguarded_lookup:
  "(load_seed w seed_file = Inr seeds_list \<longrightarrow>
    seed_pass site (map fst seeds_list) ([], Map.empty) w (set_order (map fst seeds_list))
      = (Inr (links_to_seedlinks, first_step), w1) \<longrightarrow>
    extract_network set_order site w seed_file = (Inr final, w') \<longrightarrow>
    (\<forall>e \<in> set (drop (length (net_file w1)) (net_file w')). snd e \<in> dom first_step))
   \<and> load_seed stranded_world ''seeds.txt'' = Inr [(''P'', 1), (''Q'', 1)]
   \<and> map_sum id (\<lambda>(ls, fs). (ls, fs ''Q'')) (fst stranded_seed_pass) = Inr ([[''R''], []], None)
   \<and> net_file (snd stranded_seed_pass) = [(''P'', ''R'')]
   \<and> fst (extract_network remdups stranded_site stranded_world ''seeds.txt'') = Inl KeyError
   \<and> net_file (snd (extract_network remdups stranded_site stranded_world ''seeds.txt''))
       = [(''P'', ''R''), (''R'', ''Q'')]"
proof -
  have "load_seed stranded_world ''seeds.txt'' = Inr [(''P'', 1), (''Q'', 1)]"
    by code_simp
  moreover have
    "map_sum id (\<lambda>(ls, fs). (ls, fs ''Q'')) (fst stranded_seed_pass) = Inr ([[''R''], []], None)"
    by code_simp
  moreover have "net_file (snd stranded_seed_pass) = [(''P'', ''R'')]"
    by code_simp
  moreover have
    "fst (extract_network remdups stranded_site stranded_world ''seeds.txt'') = Inl KeyError"
  proof -
    have "isl (fst (extract_network remdups stranded_site stranded_world ''seeds.txt''))"
      by code_simp
    moreover have
      "projl (fst (extract_network remdups stranded_site stranded_world ''seeds.txt'')) = KeyError"
      by code_simp
    ultimately show ?thesis by (metis sum.collapse(1))
  qed
  moreover have
    "net_file (snd (extract_network remdups stranded_site stranded_world ''seeds.txt''))
       = [(''P'', ''R''), (''R'', ''Q'')]"
    by code_simp
  ultimately show ?thesis
    using level1_targets_have_records [of w seed_file seeds_list site set_order
        links_to_seedlinks first_step w1 final w']
    by blast
qed

theorem level1_unguarded_lookup_witness:
  "drop (length (net_file (snd scenario_seed_pass))) (net_file (snd scenario_run))
     = [(''B'', ''A''), (''C'', ''B'')]
   \<and> ''A'' \<in> dom (snd (projr (fst scenario_seed_pass)))
   \<and> ''B'' \<in> dom (snd (projr (fst scenario_seed_pass)))"
proof -
  have d: "drop (length (net_file (snd scenario_seed_pass))) (net_file (snd scenario_run))
     = [(''B'', ''A''), (''C'', ''B'')]"
    by code_simp
  have sp: "seed_pass scenario_site (map fst [(''A'', 1 :: int)]) ([], Map.empty) scenario_world
              (remdups (map fst [(''A'', 1 :: int)]))
            = (Inr (fst (projr (fst scenario_seed_pass)), snd (projr (fst scenario_seed_pass))),
               snd scenario_seed_pass)"
    using scenario_seed_pass_ok by (simp add: scenario_seed_pass_def)
  from level1_unguarded_lookup
    [of scenario_world "''seeds.txt''" "[(''A'', 1)]" scenario_site remdups
        "fst (projr (fst scenario_seed_pass))" "snd (projr (fst scenario_seed_pass))"
        "snd scenario_seed_pass" "projr (fst scenario_run)" "snd scenario_run"]
    scenario_load sp scenario_run_ok [unfolded scenario_run_def]
  have "\<forall>e \<in> set (drop (length (net_file (snd scenario_seed_pass))) (net_file (snd scenario_run))).
          snd e \<in> dom (snd (projr (fst scenario_seed_pass)))"
    by (simp add: scenario_run_def)
  with d show ?thesis by simp
qed

section \<open>Properties of the outlink cache\<close>

text \<open>
  A file that holds titles without line boundaries, one on each line, is read back as the
  list of these titles.
\<close>

lemma LF_linebreak: "is_linebreak LF" "LF \<noteq> CR" "is_linebreak CR"
  by (simp_all add: is_linebreak_def LF_def CR_def)

lemma universal_newlines_id: "CR \<notin> set s \<Longrightarrow> universal_newlines s = s"
  by (induction s rule: universal_newlines.induct) auto

lemma splitlines_from_line:
  "plain t \<Longrightarrow> splitlines_from cur (t @ LF # rest) = (cur @ t) # splitlines_from [] rest"
proof (induction t arbitrary: cur)
  case Nil
  show ?case by (cases rest) (simp_all add: LF_linebreak)
next
  case (Cons a t)
  from Cons.prems have a: "\<not> is_linebreak a" "a \<noteq> CR" and t: "plain t"
    using LF_linebreak(3) by (auto simp: plain_def)
  obtain d ds where "t @ LF # rest = d # ds" by (cases "t @ LF # rest") auto
  with a Cons.IH [OF t, of "cur @ [a]"] show ?case by simp
qed

lemma splitlines_cache_text: "list_all plain ts \<Longrightarrow> splitlines (cache_text ts) = ts"
proof -
  assume p: "list_all plain ts"
  then have "splitlines_from [] (cache_text ts) = ts"
    by (induction ts) (simp_all add: cache_text_def splitlines_from_line)
  then show ?thesis by (simp add: splitlines_def)
qed

lemma cache_text_no_CR: "list_all plain ts \<Longrightarrow> CR \<notin> set (cache_text ts)"
  using LF_linebreak by (auto simp: cache_text_def plain_def list_all_iff)

lemma read_cache_text:
  "files w (link_path (cache_name t)) = Some (cache_text ts) \<Longrightarrow> list_all plain ts
     \<Longrightarrow> read_cache w t = ts"
  by (simp add: read_cache_def universal_newlines_id cache_text_no_CR splitlines_cache_text)

lemma universal_newlines_Nil: "universal_newlines s = [] \<Longrightarrow> s = []"
  by (induction s rule: universal_newlines.induct) (auto split: if_splits)

lemma splitlines_from_Nil: "splitlines_from cur s = [] \<Longrightarrow> s = []"
  by (induction cur s rule: splitlines_from.induct) (auto split: if_splits)

lemma read_cache_Nil:
  "read_cache w t = [] \<Longrightarrow>
     files w (link_path (cache_name t)) = None \<or> files w (link_path (cache_name t)) = Some []"
  by (auto simp: read_cache_def splitlines_def split: option.splits
           dest!: splitlines_from_Nil universal_newlines_Nil)

lemma cache_text_snoc: "cache_text (ts @ [t]) = cache_text ts @ t @ [LF]"
  by (simp add: cache_text_def)

lemma seed_targets_file:
  "files w (link_path (cache_name sd)) = Some (cache_text pre) \<Longrightarrow>
   files (snd (seed_targets seeds sd True n fs w targets)) (link_path (cache_name sd))
     = Some (cache_text (pre @ filter (\<lambda>x. x \<noteq> sd) targets))"
proof (induction targets arbitrary: fs w pre)
  case Nil
  then show ?case by simp
next
  case (Cons target rest)
  show ?case
  proof (cases "sd \<noteq> target")
    case False
    with Cons.IH [OF Cons.prems, of fs] show ?thesis by auto
  next
    case True
    let ?w2 = "append_file (w\<lparr>net_file := net_file w @ [(sd, target)]\<rparr>)
                 (link_path (cache_name sd)) (target @ [LF])"
    have "files ?w2 (link_path (cache_name sd)) = Some (cache_text (pre @ [target]))"
      using Cons.prems by (simp add: append_file_def cache_text_snoc)
    from Cons.IH [OF this] True show ?thesis
      by (auto simp: Let_def)
  qed
qed


lemma outlink_targets_file:
  "files w (link_path (cache_name t)) = Some (cache_text pre) \<Longrightarrow>
   outlink_targets seeds fr t True fs w targets = (Inr fs', w') \<Longrightarrow>
   files w' (link_path (cache_name t)) = Some (cache_text (pre @ targets))"
proof (induction targets arbitrary: fs w pre)
  case Nil
  then show ?case by simp
next
  case (Cons target rest)
  let ?w1 = "append_file w (link_path (cache_name t)) (target @ [LF])"
  let ?w2 = "?w1\<lparr>net_file := net_file w @ [(t, target)]\<rparr>"
  have f1: "files ?w1 (link_path (cache_name t)) = Some (cache_text (pre @ [target]))"
    using Cons.prems(1) by (simp add: append_file_def cache_text_snoc)
  show ?case
  proof (cases "(target \<in> set seeds \<or> target \<in> set fr) \<and> target \<noteq> t")
    case False
    note rec = Cons.prems(2) [unfolded outlink_targets_skip [OF False], simplified]
    from Cons.IH [OF f1 rec] show ?thesis by simp
  next
    case True
    note step = Cons.prems(2) [unfolded outlink_targets_edge [OF True], simplified]
    then obtain fs1 where e: "outlink_edge (target \<in> set seeds) t target fs = Inr fs1"
      by (cases "outlink_edge (target \<in> set seeds) t target fs") auto
    with step have rec: "outlink_targets seeds fr t True fs1 ?w2 rest = (Inr fs', w')" by simp
    from f1 have "files ?w2 (link_path (cache_name t)) = Some (cache_text (pre @ [target]))"
      by simp
    from Cons.IH [OF this rec] show ?thesis by simp
  qed
qed

lemma get_outlinks_new:
  assumes "get_outlinks site w t = (Inr (True, outs), w1)"
  shows "read_cache w t = [] \<and> files w1 = files w"
proof -
  from assms have "read_cache w t = []"
    by (auto simp: get_outlinks_def Let_def split: if_splits)
  with get_outlinks_world [of site w t] assms show ?thesis by simp
qed

lemma seed_cache_written:
  assumes "get_outlinks site w sd = (Inr (True, outs), w1)" and "list_all plain outs"
  shows "read_cache (snd (seed_pass site seeds (lts, fs) w [sd])) sd = filter (\<lambda>x. x \<noteq> sd) outs"
proof -
  let ?path = "link_path (cache_name sd)"
  let ?n = "int (length outs)"
  let ?w2 = "open_append w1 ?path"
  let ?fs1 = "case fs sd of Some r \<Rightarrow> fs(sd \<mapsto> r\<lparr>out_WP := ?n\<rparr>) | None \<Rightarrow> fs"
  from get_outlinks_new [OF assms(1)] read_cache_Nil [of w sd]
  have "files w1 ?path = None \<or> files w1 ?path = Some []" by auto
  then have "files ?w2 ?path = Some (cache_text [])"
    by (auto simp: open_append_def append_file_def cache_text_def)
  from seed_targets_file [OF this, of seeds ?n ?fs1 outs]
  have "files (snd (seed_targets seeds sd True ?n ?fs1 ?w2 outs)) ?path
          = Some (cache_text (filter (\<lambda>x. x \<noteq> sd) outs))"
    by simp
  moreover have "list_all plain (filter (\<lambda>x. x \<noteq> sd) outs)"
    using assms(2) by (simp add: list_all_iff)
  ultimately have
    "read_cache (snd (seed_targets seeds sd True ?n ?fs1 ?w2 outs)) sd = filter (\<lambda>x. x \<noteq> sd) outs"
    by (rule read_cache_text)
  moreover have "snd (seed_pass site seeds (lts, fs) w [sd])
      = snd (seed_targets seeds sd True ?n ?fs1 ?w2 outs)"
    using assms(1) by (simp add: Let_def split: prod.splits)
  ultimately show ?thesis by simp
qed

lemma outlink_cache_written:
  assumes "get_outlinks site w t = (Inr (True, outs), w1)" and "list_all plain outs"
    and "outlink_pass site seeds fr fs w [t] = (Inr fs', w')"
  shows "read_cache w' t = outs"
proof -
  let ?path = "link_path (cache_name t)"
  let ?w2 = "open_write w1 ?path"
  have ok: "\<not> (True \<and> fs t = None)"
    using assms(1,3) by (auto simp: Let_def split: option.splits)
  note step = assms(3)
    [unfolded outlink_pass_step [of site w t True outs w1 fs, OF assms(1) ok], simplified]
  obtain r3 w3 where ot:
    "outlink_targets seeds fr t True (fs(t \<mapsto> (the (fs t))\<lparr>out_WP := int (length outs)\<rparr>)) ?w2 outs
       = (r3, w3)"
    by (cases "outlink_targets seeds fr t True
                 (fs(t \<mapsto> (the (fs t))\<lparr>out_WP := int (length outs)\<rparr>)) ?w2 outs")
  from step ot obtain fs2 where r3: "r3 = Inr fs2" by (cases r3) auto
  from step ot r3 have w': "w' = w3" by simp
  have "files ?w2 ?path = Some (cache_text [])"
    by (simp add: open_write_def cache_text_def)
  from outlink_targets_file [OF this ot [unfolded r3]]
  have "files w' ?path = Some (cache_text outs)" by (simp add: w')
  then show ?thesis using assms(2) by (rule read_cache_text)
qed


text \<open>
  C8 (cache round-trip).  The pass over the outlinks writes every title of a freshly
  resolved list to the cache file, so the file is read back as the list
  (\<open>outlink_cache_written\<close>).  The pass over the seeds writes a title only when it differs
  from the seed (\<open>seed_cache_written\<close>): in the run with the seed \<open>S\<close> the list resolved
  for \<open>S\<close> is \<open>S\<close>, \<open>T\<close>, the run reaches the export, the cache file of \<open>S\<close> holds the
  line \<open>T\<close> only, and \<open>get_outlinks\<close> then returns the list \<open>T\<close> from the cache; the
  list of \<open>T\<close>, written by the second pass, is returned as it was resolved.
\<close>

theorem seed_cache_drops_self_link:
  "fst (get_outlinks selflink_site selflink_world ''S'') = Inr (True, [''S'', ''T''])
   \<and> \<not> isl (fst selflink_run)
   \<and> files (snd selflink_run) (link_path (cache_name ''S'')) = Some ''T\<newline>''
   \<and> fst (get_outlinks selflink_site (snd selflink_run) ''S'') = Inr (False, [''T''])
   \<and> fst (get_outlinks selflink_site (snd selflink_run) ''T'') = Inr (False, [''S''])"
proof -
  have "fst (get_outlinks selflink_site selflink_world ''S'') = Inr (True, [''S'', ''T''])"
    by code_simp
  moreover have "\<not> isl (fst selflink_run)"
    by code_simp
  moreover have "files (snd selflink_run) (link_path (cache_name ''S'')) = Some ''T\<newline>''"
    by code_simp
  moreover have "fst (get_outlinks selflink_site (snd selflink_run) ''S'') = Inr (False, [''T''])"
    by code_simp
  moreover have "fst (get_outlinks selflink_site (snd selflink_run) ''T'') = Inr (False, [''S''])"
    by code_simp
  ultimately show ?thesis by simp
qed

end
